theory Spec2Isabelle
  imports Main "HOL-Library.Char_ord" "HOL-Library.List_Lexorder"
begin

section \<open>Strings\<close>

text \<open>
  A JavaScript string is modelled as a \<open>string\<close>: the list of its code units, for text
  whose code units are below 256. In that range the characters that \<open>trim()\<close> strips
  and that the regular expression class \<open>\s\<close> matches are the same seven: tab, line feed,
  vertical tab, form feed, carriage return, space and the no-break space.
\<close>

definition is_space :: "char \<Rightarrow> bool" where
  "is_space c = (c = CHR 0x09 \<or> c = CHR 0x0A \<or> c = CHR 0x0B \<or> c = CHR 0x0C
                 \<or> c = CHR 0x0D \<or> c = CHR 0x20 \<or> c = CHR 0xA0)"

text \<open>\<open>s.trim()\<close>\<close>

definition trim :: "string \<Rightarrow> string" where
  "trim s = rev (dropWhile is_space (rev (dropWhile is_space s)))"

text \<open>\<open>s.startsWith(p)\<close>\<close>

definition startsWith :: "string \<Rightarrow> string \<Rightarrow> bool" where
  "startsWith p s = (take (length p) s = p)"

text \<open>\<open>s.includes(sub)\<close>\<close>

fun includes_str :: "string \<Rightarrow> string \<Rightarrow> bool" where
  "includes_str sub [] = (sub = [])"
| "includes_str sub (c # cs) = (startsWith sub (c # cs) \<or> includes_str sub cs)"

text \<open>\<open>parts.join(sep)\<close>\<close>

fun join :: "string \<Rightarrow> string list \<Rightarrow> string" where
  "join sep [] = []"
| "join sep [x] = x"
| "join sep (x # y # ys) = x @ sep @ join sep (y # ys)"

text \<open>\<open>s.replace(/\s+/g, " ")\<close>: every maximal run of whitespace becomes one space.\<close>

function collapse_ws :: "string \<Rightarrow> string" where
  "collapse_ws [] = []"
| "collapse_ws (c # cs) =
     (if is_space c then CHR 0x20 # collapse_ws (dropWhile is_space cs)
      else c # collapse_ws cs)"
  by pat_completeness auto
termination
  by (relation "measure length") (auto simp: length_dropWhile_le less_Suc_eq_le)

text \<open>\<open>s.replace(/\/+$/, "")\<close>: the trailing slashes are removed.\<close>

definition strip_trailing_slashes :: "string \<Rightarrow> string" where
  "strip_trailing_slashes s = rev (dropWhile (\<lambda>c. c = CHR ''/'') (rev s))"

text \<open>\<open>s.split("/")\<close>: the segments between slashes; the empty string gives one empty segment.\<close>

fun split_slash :: "string \<Rightarrow> string list" where
  "split_slash [] = [[]]"
| "split_slash (c # cs) =
     (if c = CHR ''/'' then [] # split_slash cs
      else (case split_slash cs of
              [] \<Rightarrow> [[c]]
            | seg # segs \<Rightarrow> (c # seg) # segs))"

section \<open>Parsed documents\<close>

text \<open>
  The parsed document is a tree of element nodes (tag name in lower case, attributes,
  children) and text nodes. A document is given by its \<open>body\<close> element, the root of every
  walk below. Comment nodes are left out: neither the text walk nor \<open>textContent\<close> sees
  them.
\<close>

datatype node =
    Text string
  | Element string "(string \<times> string) list" "node list"

text \<open>\<open>node.textContent\<close>\<close>

fun textContent :: "node \<Rightarrow> string" where
  "textContent (Text s) = s"
| "textContent (Element t attrs cs) = concat (map textContent cs)"

text \<open>The descendants of a node in document order, the node itself excluded.\<close>

fun descendants :: "node \<Rightarrow> node list" where
  "descendants (Text s) = []"
| "descendants (Element t attrs cs) = concat (map (\<lambda>c. c # descendants c) cs)"

fun is_tag :: "string \<Rightarrow> node \<Rightarrow> bool" where
  "is_tag t (Text s) = False"
| "is_tag t (Element t' attrs cs) = (t' = t)"

text \<open>\<open>el.getAttribute(name)\<close>: the value of the first attribute of that name, or null.\<close>

fun getAttribute :: "string \<Rightarrow> node \<Rightarrow> string option" where
  "getAttribute name (Text s) = None"
| "getAttribute name (Element t attrs cs) = map_of attrs name"

text \<open>\<open>el.querySelectorAll(tag)\<close> and \<open>el.querySelector(tag)\<close> for a tag selector.\<close>

definition querySelectorAll :: "string \<Rightarrow> node \<Rightarrow> node list" where
  "querySelectorAll t n = filter (is_tag t) (descendants n)"

definition querySelector :: "string \<Rightarrow> node \<Rightarrow> node option" where
  "querySelector t n = (case querySelectorAll t n of [] \<Rightarrow> None | e # _ \<Rightarrow> Some e)"

text \<open>\<open>el.querySelectorAll("a[href]")\<close>\<close>

definition anchors_with_href :: "node \<Rightarrow> node list" where
  "anchors_with_href n =
     filter (\<lambda>e. is_tag ''a'' e \<and> getAttribute ''href'' e \<noteq> None) (descendants n)"

subsection \<open>The text walk\<close>

text \<open>
  \<open>document.createTreeWalker(document.body, 4)\<close> with repeated \<open>nextNode()\<close> visits
  the text nodes below the body in document order. Each visited node is given here as its
  \<open>nodeValue\<close> together with the chain of its ancestor elements, nearest first: the
  head of the chain is \<open>node.parentElement\<close>, the next its \<open>parentElement\<close>, and so on.
\<close>

fun walk :: "node list \<Rightarrow> node \<Rightarrow> (string \<times> node list) list" where
  "walk anc (Text s) = [(s, anc)]"
| "walk anc (Element t attrs cs) = concat (map (walk (Element t attrs cs # anc)) cs)"

definition text_nodes :: "node \<Rightarrow> (string \<times> node list) list" where
  "text_nodes body = (case body of Text s \<Rightarrow> [] | Element t attrs cs \<Rightarrow> walk [] body)"

text \<open>\<open>textValue(node)\<close> for a text node with the given \<open>nodeValue\<close>.\<close>

definition textValue :: "string \<Rightarrow> string" where
  "textValue nodeValue = (if nodeValue = [] then [] else trim nodeValue)"

section \<open>Field locator\<close>

text \<open>
  The loop of \<open>findFieldValue\<close>, over the text nodes still to visit, with the flag
  \<open>seenLabel\<close> as state.
\<close>

fun findFieldValue_loop :: "bool \<Rightarrow> string \<Rightarrow> (string \<times> node list) list \<Rightarrow> string option" where
  "findFieldValue_loop seenLabel labelText [] = None"
| "findFieldValue_loop seenLabel labelText (n # rest) =
     (let v = textValue (fst n) in
      if v = [] then findFieldValue_loop seenLabel labelText rest
      else if seenLabel then Some v
      else if v = labelText then findFieldValue_loop True labelText rest
      else findFieldValue_loop seenLabel labelText rest)"

definition findFieldValue :: "node \<Rightarrow> string \<Rightarrow> string option" where
  "findFieldValue body labelText = findFieldValue_loop False labelText (text_nodes body)"

text \<open>
  The text sequence the extractors scan: the trimmed values of the text nodes in document
  order, the empty ones left out.
\<close>

definition text_values :: "node \<Rightarrow> string list" where
  "text_values body = filter (\<lambda>v. v \<noteq> []) (map (\<lambda>n. textValue (fst n)) (text_nodes body))"

text \<open>
  The field locator as the specification words it: go to the first value equal to the
  label and return the value after it.
\<close>

definition locate_field :: "string list \<Rightarrow> string \<Rightarrow> string option" where
  "locate_field vs l =
     (case dropWhile (\<lambda>v. v \<noteq> l) vs of
        [] \<Rightarrow> None
      | _ # after \<Rightarrow> (case after of [] \<Rightarrow> None | v # _ \<Rightarrow> Some v))"

section \<open>Section extractors\<close>

text \<open>The closed registry of section headings, \<open>SECTION_TITLES\<close>.\<close>

definition SECTION_TITLES :: "string list" where
  "SECTION_TITLES =
     [''Explanation'', ''Relevant Billing Model'', ''Detection'', ''Remediation'',
      ''Relevant Documentation'']"

subsection \<open>Paragraph mode\<close>

text \<open>
  The loop of \<open>extractSectionParagraph\<close>, with the flag \<open>inSection\<close> and the array
  \<open>collected\<close> as state. The \<open>break\<close> returns what was collected so far.
\<close>

fun extractSectionParagraph_loop ::
  "bool \<Rightarrow> string list \<Rightarrow> string \<Rightarrow> (string \<times> node list) list \<Rightarrow> string list" where
  "extractSectionParagraph_loop inSection collected headingText [] = collected"
| "extractSectionParagraph_loop inSection collected headingText (n # rest) =
     (let v = textValue (fst n) in
      if v = [] then extractSectionParagraph_loop inSection collected headingText rest
      else if \<not> inSection then
        (if v = headingText
         then extractSectionParagraph_loop True collected headingText rest
         else extractSectionParagraph_loop inSection collected headingText rest)
      else if v \<in> set SECTION_TITLES \<and> v \<noteq> headingText then collected
      else extractSectionParagraph_loop inSection (collected @ [v]) headingText rest)"

definition extractSectionParagraph :: "node \<Rightarrow> string \<Rightarrow> string option" where
  "extractSectionParagraph body headingText =
     (let collected = extractSectionParagraph_loop False [] headingText (text_nodes body) in
      if collected = [] then None
      else Some (trim (collapse_ws (join '' '' collected))))"

text \<open>
  The paragraph extractor as the specification words it, on the text sequence: the
  fragments after the first value equal to the heading, up to the first value that is a
  different member of the registry.
\<close>

definition section_fragments :: "string list \<Rightarrow> string \<Rightarrow> string list" where
  "section_fragments vs h =
     takeWhile (\<lambda>v. \<not> (v \<in> set SECTION_TITLES \<and> v \<noteq> h))
       (drop 1 (dropWhile (\<lambda>v. v \<noteq> h) vs))"

definition paragraph_of :: "string list \<Rightarrow> string \<Rightarrow> string option" where
  "paragraph_of vs h =
     (if section_fragments vs h = [] then None
      else Some (trim (collapse_ws (join '' '' (section_fragments vs h)))))"

subsection \<open>List mode\<close>

text \<open>The first loop of \<open>extractSectionList\<close>: the heading's text node, if any.\<close>

fun findHeading_loop ::
  "string \<Rightarrow> (string \<times> node list) list \<Rightarrow> (string \<times> node list) option" where
  "findHeading_loop headingText [] = None"
| "findHeading_loop headingText (n # rest) =
     (let v = textValue (fst n) in
      if v = [] then findHeading_loop headingText rest
      else if v = headingText then Some n
      else findHeading_loop headingText rest)"

text \<open>
  The second loop: from \<open>foundHeading.parentElement\<close> upwards, the first element with a
  \<open>ul\<close> below it. The chain ends at the body: the \<open>html\<close> element above it holds no
  list outside the body.
\<close>

fun findContainer :: "node list \<Rightarrow> node option" where
  "findContainer [] = None"
| "findContainer (container # up) =
     (if querySelector ''ul'' container \<noteq> None then Some container
      else findContainer up)"

text \<open>The \<open>forEach\<close> over the \<open>li\<close> elements, with the array \<open>items\<close> as state.\<close>

fun collect_items :: "node list \<Rightarrow> string list \<Rightarrow> string list" where
  "collect_items [] items = items"
| "collect_items (li # listItems) items =
     (let text = trim (textContent li) in
      if text \<noteq> [] then collect_items listItems (items @ [text])
      else collect_items listItems items)"

definition extractSectionList :: "node \<Rightarrow> string \<Rightarrow> string list" where
  "extractSectionList body headingText =
     (case findHeading_loop headingText (text_nodes body) of
        None \<Rightarrow> []
      | Some foundHeading \<Rightarrow>
          (case findContainer (snd foundHeading) of
             None \<Rightarrow> []
           | Some container \<Rightarrow>
               (case querySelector ''ul'' container of
                  None \<Rightarrow> []
                | Some ul \<Rightarrow> collect_items (querySelectorAll ''li'' ul) [])))"

text \<open>
  The list extractor read from the specification's words: the heading's text node, the
  nearest ancestor with a list below it, the first list in it, and then the trimmed text
  of the list's item \<^emph>\<open>children\<close>, the empty ones dropped.
\<close>

fun children :: "node \<Rightarrow> node list" where
  "children (Text s) = []"
| "children (Element t attrs cs) = cs"

definition nearest_list :: "node \<Rightarrow> string \<Rightarrow> node option" where
  "nearest_list body h =
     (case find (\<lambda>n. textValue (fst n) = h \<and> h \<noteq> []) (text_nodes body) of
        None \<Rightarrow> None
      | Some n \<Rightarrow>
          (case find (\<lambda>c. filter (is_tag ''ul'') (descendants c) \<noteq> []) (snd n) of
             None \<Rightarrow> None
           | Some c \<Rightarrow> Some (hd (filter (is_tag ''ul'') (descendants c)))))"

definition item_texts :: "node list \<Rightarrow> string list" where
  "item_texts lis = filter (\<lambda>t. t \<noteq> []) (map (\<lambda>li. trim (textContent li)) lis)"

definition list_of_item_children :: "node \<Rightarrow> string \<Rightarrow> string list" where
  "list_of_item_children body h =
     (case nearest_list body h of
        None \<Rightarrow> []
      | Some ul \<Rightarrow> item_texts (filter (is_tag ''li'') (children ul)))"

definition list_of_item_descendants :: "node \<Rightarrow> string \<Rightarrow> string list" where
  "list_of_item_descendants body h =
     (case nearest_list body h of
        None \<Rightarrow> []
      | Some ul \<Rightarrow> item_texts (filter (is_tag ''li'') (descendants ul)))"

section \<open>Link collector\<close>

definition BASE_URL :: string where
  "BASE_URL = ''https://hub.pointfive.co''"

record doc_link =
  link_title :: "string option"
  link_url :: string

text \<open>
  \<open>new URL(href, BASE_URL).toString()\<close> is the platform's URL resolution. It is a
  parameter \<open>resolve\<close> of the model: \<open>None\<close> where the constructor throws its
  \<open>TypeError\<close>, whose message is \<open>Invalid URL\<close>.
\<close>

definition full_url :: "(string \<Rightarrow> string option) \<Rightarrow> string \<Rightarrow> string option" where
  "full_url resolve href = (if startsWith ''http'' href then Some href else resolve href)"

text \<open>
  The \<open>forEach\<close> over the anchors of one enclosing element, with the array \<open>links\<close>
  as state; an exception of the resolution leaves the loop and the function.
\<close>

fun collect_anchors ::
  "(string \<Rightarrow> string option) \<Rightarrow> node list \<Rightarrow> doc_link list \<Rightarrow> string + doc_link list" where
  "collect_anchors resolve [] links = Inr links"
| "collect_anchors resolve (a # anchors) links =
     (case getAttribute ''href'' a of
        None \<Rightarrow> collect_anchors resolve anchors links
      | Some href \<Rightarrow>
          if href = [] then collect_anchors resolve anchors links
          else
            (case full_url resolve href of
               None \<Rightarrow> Inl ''Invalid URL''
             | Some url \<Rightarrow>
                 (let t = trim (textContent a);
                      title = (if t = [] then None else Some t)
                  in if find (\<lambda>x. link_url x = url) links = None
                     then collect_anchors resolve anchors
                            (links @ [\<lparr>link_title = title, link_url = url\<rparr>])
                     else collect_anchors resolve anchors links)))"

text \<open>The loop of \<open>extractDocumentationLinks\<close>, with \<open>afterHeading\<close> and \<open>links\<close> as state.\<close>

fun extractDocumentationLinks_loop ::
  "(string \<Rightarrow> string option) \<Rightarrow> bool \<Rightarrow> doc_link list \<Rightarrow> (string \<times> node list) list
     \<Rightarrow> string + doc_link list" where
  "extractDocumentationLinks_loop resolve afterHeading links [] = Inr links"
| "extractDocumentationLinks_loop resolve afterHeading links (n # rest) =
     (let v = textValue (fst n) in
      if v = [] then extractDocumentationLinks_loop resolve afterHeading links rest
      else if \<not> afterHeading then
        (if v = ''Relevant Documentation''
         then extractDocumentationLinks_loop resolve True links rest
         else extractDocumentationLinks_loop resolve afterHeading links rest)
      else if v \<in> set SECTION_TITLES \<and> v \<noteq> ''Relevant Documentation'' then Inr links
      else
        (case snd n of
           [] \<Rightarrow> extractDocumentationLinks_loop resolve afterHeading links rest
         | parentEl # _ \<Rightarrow>
             (case collect_anchors resolve (anchors_with_href parentEl) links of
                Inl e \<Rightarrow> Inl e
              | Inr links' \<Rightarrow>
                  extractDocumentationLinks_loop resolve afterHeading links' rest)))"

definition extractDocumentationLinks ::
  "(string \<Rightarrow> string option) \<Rightarrow> node \<Rightarrow> string + doc_link list" where
  "extractDocumentationLinks resolve body =
     extractDocumentationLinks_loop resolve False [] (text_nodes body)"

text \<open>
  An absolute URL, in the words of the URL standards: it begins with a scheme, a letter
  followed by letters, digits, \<open>+\<close>, \<open>-\<close> or \<open>.\<close>, and then a colon.
\<close>

definition is_alpha :: "char \<Rightarrow> bool" where
  "is_alpha c = ((CHR ''a'' \<le> c \<and> c \<le> CHR ''z'') \<or> (CHR ''A'' \<le> c \<and> c \<le> CHR ''Z''))"

definition is_scheme_char :: "char \<Rightarrow> bool" where
  "is_scheme_char c =
     (is_alpha c \<or> (CHR ''0'' \<le> c \<and> c \<le> CHR ''9'') \<or> c = CHR ''+'' \<or> c = CHR ''-''
      \<or> c = CHR ''.'')"

definition is_absolute_url :: "string \<Rightarrow> bool" where
  "is_absolute_url u =
     (case u of
        [] \<Rightarrow> False
      | c # cs \<Rightarrow> is_alpha c \<and> take 1 (dropWhile is_scheme_char cs) = '':'')"

text \<open>
  The anchors the collector meets, in the order it meets them: for every text node
  between the heading and the next other heading, the anchors below its parent element.
\<close>

definition other_heading :: "string \<times> node list \<Rightarrow> bool" where
  "other_heading n = (textValue (fst n) \<in> set SECTION_TITLES
                        \<and> textValue (fst n) \<noteq> ''Relevant Documentation'')"

definition documentation_region :: "node \<Rightarrow> (string \<times> node list) list" where
  "documentation_region body =
     takeWhile (\<lambda>n. \<not> other_heading n)
       (drop 1 (dropWhile (\<lambda>n. textValue (fst n) \<noteq> ''Relevant Documentation'')
          (filter (\<lambda>n. textValue (fst n) \<noteq> []) (text_nodes body))))"

definition region_anchors :: "(string \<times> node list) list \<Rightarrow> node list" where
  "region_anchors ms =
     concat (map (\<lambda>n. case snd n of [] \<Rightarrow> [] | parentEl # _ \<Rightarrow> anchors_with_href parentEl) ms)"

definition met_anchors :: "node \<Rightarrow> node list" where
  "met_anchors body = region_anchors (documentation_region body)"

text \<open>The entry an anchor with a non-empty href stands for, once its URL is known.\<close>

definition link_of :: "node \<Rightarrow> string \<Rightarrow> doc_link" where
  "link_of a u =
     \<lparr>link_title = (if trim (textContent a) = [] then None else Some (trim (textContent a))),
      link_url = u\<rparr>"

section \<open>Identity of a record\<close>

text \<open>
  \<open>new URL(url).pathname\<close> is the platform's URL parser, a parameter \<open>pathname\<close> of
  the model: \<open>None\<close> where the constructor throws.
\<close>

definition slugFromUrl :: "(string \<Rightarrow> string option) \<Rightarrow> string \<Rightarrow> string" where
  "slugFromUrl pathname url =
     (case pathname url of
        None \<Rightarrow> url
      | Some p \<Rightarrow> last (split_slash (strip_trailing_slashes p)))"

text \<open>
  A parser for the plain case, used to run the model on examples: scheme \<open>http\<close> or
  \<open>https\<close>, \<open>://\<close>, a non-empty host, and then the path up to the first \<open>?\<close> or
  \<open>#\<close>, which is \<open>/\<close> when nothing follows the host. It does not normalise.
\<close>

definition plain_pathname :: "string \<Rightarrow> string option" where
  "plain_pathname u =
     (let after = (if startsWith ''https://'' u then Some (drop 8 u)
                   else if startsWith ''http://'' u then Some (drop 7 u)
                   else None)
      in case after of
           None \<Rightarrow> None
         | Some r \<Rightarrow>
             (let host = takeWhile (\<lambda>c. c \<noteq> CHR ''/'' \<and> c \<noteq> CHR ''?'' \<and> c \<noteq> CHR ''#'') r;
                  rest = dropWhile (\<lambda>c. c \<noteq> CHR ''/'' \<and> c \<noteq> CHR ''?'' \<and> c \<noteq> CHR ''#'') r;
                  path = takeWhile (\<lambda>c. c \<noteq> CHR ''?'' \<and> c \<noteq> CHR ''#'') rest
              in if host = [] then None
                 else Some (if path = [] then ''/'' else path)))"

text \<open>
  A resolver for examples. It agrees with the platform on the hrefs the examples give it:
  paths from the root, without dot segments or characters that need escaping.
\<close>

definition plain_resolve :: "string \<Rightarrow> string option" where
  "plain_resolve href =
     (if startsWith ''/'' href \<and> \<not> startsWith ''//'' href then Some (BASE_URL @ href)
      else None)"

section \<open>Record assembler\<close>

record source =
  source_url :: "string option"
  source_origin :: string

text \<open>
  What \<open>mapToSchema\<close> receives: any field may be missing, and a list field may hold
  something that is not an array (both \<open>None\<close>).
\<close>

record raw_record =
  raw_id :: "string option"
  raw_title :: "string option"
  raw_author :: "string option"
  raw_service_category :: "string option"
  raw_cloud_provider :: "string option"
  raw_service_name :: "string option"
  raw_inefficiency_type :: "string option"
  raw_explanation :: "string option"
  raw_billing_model :: "string option"
  raw_detection_signals :: "string list option"
  raw_remediation_actions :: "string list option"
  raw_documentation_links :: "doc_link list option"
  raw_tags :: "string list option"
  raw_source_url :: "string option"
  raw_scraped_at :: "string option"

text \<open>The normalised record; \<open>None\<close> is JavaScript's \<open>null\<close>.\<close>

record scraped =
  id' :: "string option"
  title :: "string option"
  author :: "string option"
  service_category :: "string option"
  cloud_provider :: "string option"
  service_name :: "string option"
  inefficiency_type :: "string option"
  explanation :: string
  billing_model :: string
  detection_signals :: "string list"
  remediation_actions :: "string list"
  documentation_links :: "doc_link list"
  tags :: "string list"
  source :: source
  scraped_at :: string

text \<open>\<open>mapToSchema(raw)\<close>; \<open>now\<close> is \<open>new Date().toISOString()\<close> at the call.\<close>

definition mapToSchema :: "string \<Rightarrow> raw_record \<Rightarrow> scraped" where
  "mapToSchema now raw =
     \<lparr>id' = raw_id raw,
      title = raw_title raw,
      author = raw_author raw,
      service_category = raw_service_category raw,
      cloud_provider = raw_cloud_provider raw,
      service_name = raw_service_name raw,
      inefficiency_type = raw_inefficiency_type raw,
      explanation = (case raw_explanation raw of None \<Rightarrow> [] | Some e \<Rightarrow> e),
      billing_model = (case raw_billing_model raw of None \<Rightarrow> [] | Some b \<Rightarrow> b),
      detection_signals = (case raw_detection_signals raw of None \<Rightarrow> [] | Some xs \<Rightarrow> xs),
      remediation_actions = (case raw_remediation_actions raw of None \<Rightarrow> [] | Some xs \<Rightarrow> xs),
      documentation_links = (case raw_documentation_links raw of None \<Rightarrow> [] | Some xs \<Rightarrow> xs),
      tags = (case raw_tags raw of None \<Rightarrow> [] | Some xs \<Rightarrow> xs),
      source = \<lparr>source_url = raw_source_url raw,
                source_origin = ''pointfive_cloud_efficiency_hub''\<rparr>,
      scraped_at = (case raw_scraped_at raw of None \<Rightarrow> now | Some t \<Rightarrow> t)\<rparr>"

subsection \<open>Fetching\<close>

text \<open>
  What \<open>fetch\<close> does for a URL, within the timeout of \<open>FETCH_TIMEOUT_MS\<close>: the abort
  of the timeout, a rejection with a message, or a response with its status, status text
  and the document parsed from its text.
\<close>

datatype fetch_outcome =
    Aborted
  | Rejected string
  | Response nat string node

definition digit :: "nat \<Rightarrow> char" where
  "digit d = ''0123456789'' ! d"

function show_nat :: "nat \<Rightarrow> string" where
  "show_nat n = (if n < 10 then [digit n] else show_nat (n div 10) @ [digit (n mod 10)])"
  by pat_completeness auto
termination
  by (relation "measure id") auto

declare show_nat.simps [simp del]

definition FETCH_TIMEOUT_MS :: nat where
  "FETCH_TIMEOUT_MS = 8000"

text \<open>The platform of one run: the network, the URL parser and resolver, the date
  parser (\<open>True\<close> where \<open>Date.parse\<close> gives a number), and the clock, \<open>clock i\<close>
  being \<open>new Date().toISOString()\<close> while the \<open>i\<close>-th URL of the run is assembled.\<close>

record platform =
  fetch :: "string \<Rightarrow> fetch_outcome"
  URL_pathname :: "string \<Rightarrow> string option"
  URL_resolve :: "string \<Rightarrow> string option"
  Date_parse :: "string \<Rightarrow> bool"
  clock :: "nat \<Rightarrow> string"

text \<open>\<open>fetchDocument(url)\<close>: the document, or the message of the error thrown.\<close>

definition fetchDocument :: "platform \<Rightarrow> string \<Rightarrow> string + node" where
  "fetchDocument w url =
     (case fetch w url of
        Aborted \<Rightarrow>
          Inl (''Fetch timeout after '' @ show_nat FETCH_TIMEOUT_MS @ ''ms: '' @ url)
      | Rejected m \<Rightarrow> Inl (''Failed to fetch '' @ url @ '': '' @ m)
      | Response status statusText doc \<Rightarrow>
          if 200 \<le> status \<and> status \<le> 299 then Inr doc
          else Inl (''Failed to fetch '' @ url @ '': '' @ ''HTTP '' @ show_nat status
                    @ '' '' @ statusText))"

subsection \<open>Title and author\<close>

text \<open>
  \<open>document.querySelector("h1")\<close>, given with the siblings that follow the element:
  the first \<open>h1\<close> of a forest in document order.
\<close>

fun first_h1 :: "node list \<Rightarrow> (node \<times> node list) option" where
  "first_h1 [] = None"
| "first_h1 (Text s # ns) = first_h1 ns"
| "first_h1 (Element t attrs cs # ns) =
     (if t = ''h1'' then Some (Element t attrs cs, ns)
      else (case first_h1 cs of Some r \<Rightarrow> Some r | None \<Rightarrow> first_h1 ns))"

text \<open>The fallback loop for the title: the first non-empty text value.\<close>

fun first_text_value :: "(string \<times> node list) list \<Rightarrow> string option" where
  "first_text_value [] = None"
| "first_text_value (n # rest) =
     (let v = textValue (fst n) in if v \<noteq> [] then Some v else first_text_value rest)"

text \<open>The loop over \<open>h1.nextSibling\<close> for the author.\<close>

fun author_loop :: "string option \<Rightarrow> node list \<Rightarrow> string option" where
  "author_loop ttl [] = None"
| "author_loop ttl (Text s # rest) =
     (let v = textValue s in
      if v \<noteq> [] \<and> v \<notin> set SECTION_TITLES then Some v else author_loop ttl rest)"
| "author_loop ttl (Element t attrs cs # rest) =
     (let v = trim (textContent (Element t attrs cs)) in
      if v \<noteq> [] \<and> Some v \<noteq> ttl \<and> v \<notin> set SECTION_TITLES then Some v
      else author_loop ttl rest)"

subsection \<open>One detail page\<close>

text \<open>
  \<open>parseInefficiencyDetail(url)\<close>, assembled at clock reading \<open>now\<close>: the record, or
  the message of the error thrown by the fetch or by the link collector.
\<close>

definition parseInefficiencyDetail :: "platform \<Rightarrow> string \<Rightarrow> string \<Rightarrow> string + scraped" where
  "parseInefficiencyDetail w now url =
     (case fetchDocument w url of
        Inl e \<Rightarrow> Inl e
      | Inr document \<Rightarrow>
          (let h1 = first_h1 (children document);
               ttl = (case h1 of
                        Some (e, sibs) \<Rightarrow>
                          if textContent e \<noteq> [] then Some (trim (textContent e))
                          else first_text_value (text_nodes document)
                      | None \<Rightarrow> first_text_value (text_nodes document));
               auth = (case h1 of Some (e, sibs) \<Rightarrow> author_loop ttl sibs | None \<Rightarrow> None)
           in case extractDocumentationLinks (URL_resolve w) document of
                Inl e \<Rightarrow> Inl e
              | Inr documentationLinks \<Rightarrow>
                  Inr (mapToSchema now
                    \<lparr>raw_id = Some (slugFromUrl (URL_pathname w) url),
                     raw_title = ttl,
                     raw_author = auth,
                     raw_service_category = findFieldValue document ''Service Category'',
                     raw_cloud_provider = findFieldValue document ''Cloud Provider'',
                     raw_service_name = findFieldValue document ''Service Name'',
                     raw_inefficiency_type = findFieldValue document ''Inefficiency Type'',
                     raw_explanation = extractSectionParagraph document ''Explanation'',
                     raw_billing_model =
                       extractSectionParagraph document ''Relevant Billing Model'',
                     raw_detection_signals = Some (extractSectionList document ''Detection''),
                     raw_remediation_actions =
                       Some (extractSectionList document ''Remediation''),
                     raw_documentation_links = Some documentationLinks,
                     raw_tags = Some [],
                     raw_source_url = Some url,
                     raw_scraped_at = Some now\<rparr>)))"

section \<open>Validator\<close>

record validation =
  isValid :: bool
  errors :: "string list"

text \<open>The \<open>forEach\<close> over the documentation links, with their index.\<close>

fun link_errors :: "nat \<Rightarrow> doc_link list \<Rightarrow> string list" where
  "link_errors idx [] = []"
| "link_errors idx (link # links) =
     (if link_url link \<noteq> [] \<and> \<not> startsWith ''http'' (link_url link)
      then (''Invalid documentation link URL at index '' @ show_nat idx)
             # link_errors (Suc idx) links
      else link_errors (Suc idx) links)"

definition validateScrapedData :: "(string \<Rightarrow> bool) \<Rightarrow> scraped \<Rightarrow> validation" where
  "validateScrapedData date_ok data =
     (let e1 = (if id' data = None \<or> id' data = Some [] then [''Missing or invalid id'']
                else []);
          e2 = (if title data = None \<or> title data = Some []
                then [''Missing or invalid title''] else []);
          e3 = (case source_url (source data) of
                  None \<Rightarrow> []
                | Some u \<Rightarrow> if u \<noteq> [] \<and> \<not> startsWith ''http'' u
                            then [''Invalid source URL format''] else []);
          e4 = link_errors 0 (documentation_links data);
          e5 = (if scraped_at data = [] \<or> \<not> date_ok (scraped_at data)
                then [''Missing or invalid scraped_at timestamp''] else []);
          errs = e1 @ e2 @ e3 @ e4 @ e5
      in \<lparr>isValid = (length errs = 0), errors = errs\<rparr>)"

text \<open>A field is missing when it is null or empty.\<close>

definition missing :: "string option \<Rightarrow> bool" where
  "missing x = (x = None \<or> x = Some [])"

text \<open>The conditions the validator tests: a URL is judged only when it is present.\<close>

definition present_not_http :: "string option \<Rightarrow> bool" where
  "present_not_http x =
     (case x of None \<Rightarrow> False | Some u \<Rightarrow> u \<noteq> [] \<and> \<not> startsWith ''http'' u)"

definition invalid_as_tested :: "(string \<Rightarrow> bool) \<Rightarrow> scraped \<Rightarrow> bool" where
  "invalid_as_tested date_ok data =
     (missing (id' data) \<or> missing (title data)
      \<or> present_not_http (source_url (source data))
      \<or> list_ex (\<lambda>l. present_not_http (Some (link_url l))) (documentation_links data)
      \<or> scraped_at data = [] \<or> \<not> date_ok (scraped_at data))"

section \<open>URL discovery\<close>

definition MAX_PAGES :: nat where
  "MAX_PAGES = 30"

definition indexUrl :: "nat \<Rightarrow> string" where
  "indexUrl page =
     (if page = 1 then BASE_URL @ ''/hub''
      else BASE_URL @ ''/hub?ffbc0c57_page='' @ show_nat page)"

text \<open>\<open>urlsSet.add(x)\<close>: a JavaScript \<open>Set\<close> keeps the order of first insertion.\<close>

definition Set_add :: "string \<Rightarrow> string list \<Rightarrow> string list" where
  "Set_add x s = (if x \<in> set s then s else s @ [x])"

text \<open>
  The \<open>forEach\<close> over the anchors of one index page, with \<open>urlsSet\<close> and
  \<open>foundOnThisPage\<close> as state. An exception of the resolution leaves the loop with the
  set as it is by then: the count is \<open>None\<close>.
\<close>

fun add_page_links ::
  "(string \<Rightarrow> string option) \<Rightarrow> node list \<Rightarrow> string list \<Rightarrow> nat \<Rightarrow> string list \<times> nat option" where
  "add_page_links resolve [] urlsSet foundOnThisPage = (urlsSet, Some foundOnThisPage)"
| "add_page_links resolve (a # anchors) urlsSet foundOnThisPage =
     (case getAttribute ''href'' a of
        None \<Rightarrow> add_page_links resolve anchors urlsSet foundOnThisPage
      | Some href \<Rightarrow>
          if href = [] then add_page_links resolve anchors urlsSet foundOnThisPage
          else if includes_str ''/inefficiencies/'' href then
            (case full_url resolve href of
               None \<Rightarrow> (urlsSet, None)
             | Some fullUrl \<Rightarrow>
                 add_page_links resolve anchors (Set_add fullUrl urlsSet)
                   (Suc foundOnThisPage))
          else add_page_links resolve anchors urlsSet foundOnThisPage)"

text \<open>
  The loop over the pages. A failed fetch and an exception inside a page are caught and
  the loop goes on with the next page; a page without links ends it.
\<close>

function discover_loop :: "platform \<Rightarrow> nat \<Rightarrow> string list \<Rightarrow> string list" where
  "discover_loop w page urlsSet =
     (if page \<le> MAX_PAGES then
        (case fetchDocument w (indexUrl page) of
           Inl e \<Rightarrow> discover_loop w (Suc page) urlsSet
         | Inr document \<Rightarrow>
             (case add_page_links (URL_resolve w) (anchors_with_href document) urlsSet 0 of
                (urlsSet', None) \<Rightarrow> discover_loop w (Suc page) urlsSet'
              | (urlsSet', Some foundOnThisPage) \<Rightarrow>
                  if foundOnThisPage = 0 then urlsSet'
                  else discover_loop w (Suc page) urlsSet'))
      else urlsSet)"
  by pat_completeness auto
termination
  by (relation "measure (\<lambda>(w, page, urlsSet). Suc MAX_PAGES - page)") auto

declare discover_loop.simps [simp del]

text \<open>
  \<open>extractInefficiencyUrls(limit)\<close>. The limit is a JavaScript number: \<open>None\<close> is
  \<open>NaN\<close>. \<open>urls.sort()\<close> orders strings by their code units.
\<close>

definition extractInefficiencyUrls :: "platform \<Rightarrow> int option \<Rightarrow> string list" where
  "extractInefficiencyUrls w limit =
     (let urls = sort (discover_loop w 1 []) in
      case limit of
        None \<Rightarrow> urls
      | Some l \<Rightarrow> if l > 0 then take (nat l) urls else urls)"

text \<open>
  The links of one index page as the specification counts them: the resolved URLs of the
  anchors whose href contains \<open>/inefficiencies/\<close>.
\<close>

definition detail_hrefs_of :: "node list \<Rightarrow> string list" where
  "detail_hrefs_of anchors =
     filter (\<lambda>h. h \<noteq> [] \<and> includes_str ''/inefficiencies/'' h)
       (map (\<lambda>a. case getAttribute ''href'' a of None \<Rightarrow> [] | Some h \<Rightarrow> h) anchors)"

definition detail_hrefs :: "node \<Rightarrow> string list" where
  "detail_hrefs document = detail_hrefs_of (anchors_with_href document)"

definition page_links :: "platform \<Rightarrow> nat \<Rightarrow> string list option" where
  "page_links w page =
     (case fetchDocument w (indexUrl page) of
        Inl e \<Rightarrow> None
      | Inr document \<Rightarrow>
          those (map (full_url (URL_resolve w)) (detail_hrefs document)))"

section \<open>Request handler\<close>

text \<open>\<open>parseInt(s, 10)\<close>: \<open>None\<close> is \<open>NaN\<close>.\<close>

definition is_digit :: "char \<Rightarrow> bool" where
  "is_digit c = (CHR ''0'' \<le> c \<and> c \<le> CHR ''9'')"

definition digits_value :: "string \<Rightarrow> int" where
  "digits_value z = foldl (\<lambda>acc c. acc * 10 + (int (of_char c) - 48)) 0 z"

definition parseInt :: "string \<Rightarrow> int option" where
  "parseInt str =
     (let s = dropWhile is_space str;
          neg = (take 1 s = ''-'');
          s' = (if take 1 s = ''-'' \<or> take 1 s = ''+'' then drop 1 s else s);
          z = takeWhile is_digit s'
      in if z = [] then None
         else Some (if neg then - digits_value z else digits_value z))"

record request =
  urlParam :: "string option"
  limitParam :: "string option"

record batch_error =
  err_url :: string
  err_error :: string
  err_index :: nat

text \<open>A \<open>logger.warn\<close> call: the URL and the validation errors it reports.\<close>

record warning =
  warn_url :: string
  warn_errors :: "string list"

record batch_state =
  results :: "scraped list"
  failures :: "batch_error list"
  warnings :: "warning list"

text \<open>
  The batch loop of the handler, from index \<open>i\<close> on, with the arrays \<open>results\<close> and
  \<open>errors\<close> (here \<open>failures\<close>) and the warnings logged as state.
\<close>

fun batch_loop :: "platform \<Rightarrow> nat \<Rightarrow> string list \<Rightarrow> batch_state \<Rightarrow> batch_state" where
  "batch_loop w i [] st = st"
| "batch_loop w i (url # rest) st =
     (case parseInefficiencyDetail w (clock w i) url of
        Inr record \<Rightarrow>
          (let validation = validateScrapedData (Date_parse w) record;
               st' = (if \<not> isValid validation
                      then st\<lparr>warnings := warnings st
                                 @ [\<lparr>warn_url = url, warn_errors = errors validation\<rparr>]\<rparr>
                      else st)
           in batch_loop w (Suc i) rest (st'\<lparr>results := results st' @ [record]\<rparr>))
      | Inl message \<Rightarrow>
          batch_loop w (Suc i) rest
            (st\<lparr>failures := failures st
                   @ [\<lparr>err_url = url, err_error = message, err_index = i + 1\<rparr>]\<rparr>))"

definition process_batch :: "platform \<Rightarrow> string list \<Rightarrow> batch_state" where
  "process_batch w urls = batch_loop w 0 urls \<lparr>results = [], failures = [], warnings = []\<rparr>"

text \<open>What the handler sends: the status 200 bodies and the status 500 of the single URL.\<close>

datatype response =
    Detail scraped
  | Detail_failed string string
  | Batch "string list" "scraped list" "batch_error list"

definition handler :: "platform \<Rightarrow> request \<Rightarrow> response \<times> warning list" where
  "handler w req =
     (let limit = (case limitParam req of
                     None \<Rightarrow> Some 5
                   | Some s \<Rightarrow> if s = [] then Some 5 else parseInt s)
      in case (case urlParam req of None \<Rightarrow> None | Some u \<Rightarrow> if u = [] then None else Some u) of
           Some url \<Rightarrow>
             (case parseInefficiencyDetail w (clock w 0) url of
                Inr record \<Rightarrow>
                  (let validation = validateScrapedData (Date_parse w) record
                   in (Detail record,
                       if \<not> isValid validation
                       then [\<lparr>warn_url = url, warn_errors = errors validation\<rparr>] else []))
              | Inl message \<Rightarrow> (Detail_failed url message, []))
         | None \<Rightarrow>
             (let urls = extractInefficiencyUrls w limit;
                  st = process_batch w urls
              in (Batch urls (results st) (failures st), warnings st)))"

section \<open>Notions used in the statements, and example inputs\<close>

text \<open>A page whose label \<open>Cloud Provider\<close> occurs twice.\<close>

definition two_labels_body :: node where
  "two_labels_body = Element ''body'' []
     [Element ''div'' []
        [Text ''  Cloud Provider  '', Text ''   '', Element ''span'' [] [Text '' AWS '']],
      Element ''div'' [] [Text ''Cloud Provider'', Text ''Azure'']]"

text \<open>
  A string in which whitespace occurs only as single spaces: every whitespace character
  is a space and is not followed by another one.
\<close>

fun single_spaced :: "string \<Rightarrow> bool" where
  "single_spaced [] = True"
| "single_spaced [c] = (is_space c \<longrightarrow> c = CHR 0x20)"
| "single_spaced (c # d # cs) =
     ((is_space c \<longrightarrow> c = CHR 0x20 \<and> \<not> is_space d) \<and> single_spaced (d # cs))"

text \<open>A page with an \<open>Explanation\<close> section of two paragraphs before the next heading.\<close>

definition explanation_body :: node where
  "explanation_body = Element ''body'' []
     [Element ''h1'' [] [Text ''Idle EC2''],
      Element ''h2'' [] [Text '' Explanation ''],
      Element ''p'' [] [Text ''  Idle   instances\<newline> cost money. ''],
      Text ''\<newline>  '',
      Element ''p'' [] [Text ''Stop '', Element ''b'' [] [Text ''them.'']],
      Element ''h2'' [] [Text ''Detection''],
      Element ''p'' [] [Text ''Look at CPU.'']]"

text \<open>A page whose \<open>Detection\<close> section is a list of three items and an empty one.\<close>

definition detection_body :: node where
  "detection_body = Element ''body'' []
     [Element ''div'' []
        [Element ''h2'' [] [Text ''Detection''],
         Element ''ul'' []
           [Element ''li'' [] [Text ''Check tag X''],
            Text ''\<newline>'',
            Element ''li'' [] [Text '' Check tag Y ''],
            Element ''li'' [] [Text ''   ''],
            Element ''li'' [] [Text ''Check '', Element ''code'' [] [Text ''tag Z'']]]],
      Element ''ul'' [] [Element ''li'' [] [Text ''elsewhere'']]]"

text \<open>A page whose \<open>Detection\<close> list has an item that holds a list of its own.\<close>

definition nested_list_body :: node where
  "nested_list_body = Element ''body'' []
     [Element ''h2'' [] [Text ''Detection''],
      Element ''ul'' []
        [Element ''li'' []
           [Text ''Check tags'',
            Element ''ul'' [] [Element ''li'' [] [Text '' on volumes'']]]]]"

text \<open>
  The anchors the collector acts on, each with its href: those met with a non-empty
  href. The candidate entries are what they stand for, \<open>None\<close> where the resolution
  throws.
\<close>

definition anchor_hrefs :: "node list \<Rightarrow> (node \<times> string) list" where
  "anchor_hrefs anchors =
     concat (map (\<lambda>a. case getAttribute ''href'' a of
                         None \<Rightarrow> []
                       | Some h \<Rightarrow> if h = [] then [] else [(a, h)])
               anchors)"

definition met_hrefs :: "node \<Rightarrow> (node \<times> string) list" where
  "met_hrefs body = anchor_hrefs (met_anchors body)"

definition cand :: "(string \<Rightarrow> string option) \<Rightarrow> node \<times> string \<Rightarrow> doc_link option" where
  "cand resolve = (\<lambda>(a, h). map_option (link_of a) (full_url resolve h))"

definition candidates :: "(string \<Rightarrow> string option) \<Rightarrow> node \<Rightarrow> doc_link option list" where
  "candidates resolve body = map (cand resolve) (met_hrefs body)"

text \<open>The step of the collector on one candidate: append it unless its URL is there.\<close>

definition add_link :: "doc_link list \<Rightarrow> doc_link \<Rightarrow> doc_link list" where
  "add_link links l = (if link_url l \<in> link_url ` set links then links else links @ [l])"

text \<open>De-duplication by URL that keeps, for every URL, the entry met first, in its place.\<close>

function first_per_url :: "doc_link list \<Rightarrow> doc_link list" where
  "first_per_url [] = []"
| "first_per_url (c # cs) = c # first_per_url (filter (\<lambda>x. link_url x \<noteq> link_url c) cs)"
  by pat_completeness auto
termination
  by (relation "measure length") (auto simp: less_Suc_eq_le)

text \<open>
  A page whose documentation section links to a page beside it whose name begins with
  \<open>http\<close>.
\<close>

definition relative_http_body :: node where
  "relative_http_body = Element ''body'' []
     [Element ''h2'' [] [Text ''Relevant Documentation''],
      Element ''p'' []
        [Text ''See the '',
         Element ''a'' [(''href'', ''http-guide.html'')] [Text ''Guide'']]]"

text \<open>
  A page whose documentation section repeats a link and has a link without text; the
  section ends at the next heading.
\<close>

definition documentation_body :: node where
  "documentation_body = Element ''body'' []
     [Element ''a'' [(''href'', ''/before'')] [Text ''Before''],
      Element ''h2'' [] [Text ''Relevant Documentation''],
      Element ''p'' []
        [Text ''See '',
         Element ''a'' [(''href'', ''/docs/ebs'')] [Text '' EBS guide ''],
         Element ''a'' [(''href'', ''https://aws.example/pricing'')] [Text ''  ''],
         Element ''a'' [(''href'', '''')] [Text ''nowhere''],
         Element ''a'' [(''href'', ''/docs/ebs'')] [Text ''again'']],
      Element ''h2'' [] [Text ''Detection''],
      Element ''p'' [] [Text ''Also '', Element ''a'' [(''href'', ''/after'')] [Text ''After'']]]"

text \<open>
  A date parser for examples: it accepts the timestamps that \<open>toISOString\<close> writes,
  \<open>YYYY-MM-DDTHH:MM:SS.mmmZ\<close>, by their shape.
\<close>

definition iso_timestamp :: "string \<Rightarrow> bool" where
  "iso_timestamp s =
     (length s = 24
      \<and> list_all is_digit (take 4 s) \<and> s ! 4 = CHR ''-''
      \<and> list_all is_digit (take 2 (drop 5 s)) \<and> s ! 7 = CHR ''-''
      \<and> list_all is_digit (take 2 (drop 8 s)) \<and> s ! 10 = CHR ''T''
      \<and> list_all is_digit (take 2 (drop 11 s)) \<and> s ! 13 = CHR '':''
      \<and> list_all is_digit (take 2 (drop 14 s)) \<and> s ! 16 = CHR '':''
      \<and> list_all is_digit (take 2 (drop 17 s)) \<and> s ! 19 = CHR ''.''
      \<and> list_all is_digit (take 3 (drop 20 s)) \<and> s ! 23 = CHR ''Z'')"

text \<open>
  What the batch loop meets: every URL with its index and with the outcome of assembling
  it at that index.
\<close>

definition outcomes :: "platform \<Rightarrow> nat \<Rightarrow> string list \<Rightarrow> (string \<times> nat \<times> (string + scraped)) list" where
  "outcomes w i urls =
     map (\<lambda>(k, url). (url, k, parseInefficiencyDetail w (clock w k) url))
       (zip [i ..< i + length urls] urls)"

definition assembled :: "(string \<times> nat \<times> (string + scraped)) list \<Rightarrow> scraped list" where
  "assembled os =
     concat (map (\<lambda>(url, k, r). case r of Inr record \<Rightarrow> [record] | Inl m \<Rightarrow> []) os)"

definition failed :: "(string \<times> nat \<times> (string + scraped)) list \<Rightarrow> batch_error list" where
  "failed os =
     concat (map (\<lambda>(url, k, r). case r of
                    Inr record \<Rightarrow> []
                  | Inl m \<Rightarrow> [\<lparr>err_url = url, err_error = m, err_index = k + 1\<rparr>]) os)"

definition warned ::
  "(string \<Rightarrow> bool) \<Rightarrow> (string \<times> nat \<times> (string + scraped)) list \<Rightarrow> warning list" where
  "warned date_ok os =
     concat (map (\<lambda>(url, k, r). case r of
                    Inr record \<Rightarrow>
                      if isValid (validateScrapedData date_ok record) then []
                      else [\<lparr>warn_url = url,
                             warn_errors = errors (validateScrapedData date_ok record)\<rparr>]
                  | Inl m \<Rightarrow> []) os)"

text \<open>
  A small site: a page with a title, a page without any text, the hub's root page, a page
  that is gone, and no answer within the timeout for everything else.
\<close>

definition bare_url :: string where
  "bare_url = ''https://hub.pointfive.co/hub/inefficiencies/bare''"

definition untitled_url :: string where
  "untitled_url = ''https://hub.pointfive.co/hub/inefficiencies/untitled''"

definition slow_url :: string where
  "slow_url = ''https://hub.pointfive.co/hub/inefficiencies/slow''"

definition gone_url :: string where
  "gone_url = ''https://hub.pointfive.co/hub/inefficiencies/gone''"

definition root_url :: string where
  "root_url = ''https://hub.pointfive.co/''"

definition sample_time :: string where
  "sample_time = ''2025-02-04T10:30:00.456Z''"

definition sample_platform :: platform where
  "sample_platform =
     \<lparr>fetch = (\<lambda>u.
        if u = bare_url
        then Response 200 ''OK'' (Element ''body'' [] [Element ''h1'' [] [Text ''Bare'']])
        else if u = untitled_url then Response 200 ''OK'' (Element ''body'' [] [])
        else if u = root_url
        then Response 200 ''OK'' (Element ''body'' [] [Element ''h1'' [] [Text ''Hub'']])
        else if u = gone_url then Response 404 ''Not Found'' (Element ''body'' [] [])
        else Aborted),
      URL_pathname = plain_pathname,
      URL_resolve = plain_resolve,
      Date_parse = iso_timestamp,
      clock = (\<lambda>i. sample_time)\<rparr>"

text \<open>The records the assembler gives for the three pages that answer.\<close>

definition page_record :: "string option \<Rightarrow> string option \<Rightarrow> string \<Rightarrow> scraped" where
  "page_record i t u =
     \<lparr>id' = i, title = t, author = None,
      service_category = None, cloud_provider = None, service_name = None,
      inefficiency_type = None, explanation = [], billing_model = [],
      detection_signals = [], remediation_actions = [], documentation_links = [],
      tags = [],
      source = \<lparr>source_url = Some u, source_origin = ''pointfive_cloud_efficiency_hub''\<rparr>,
      scraped_at = sample_time\<rparr>"

definition bare_record :: scraped where
  "bare_record = page_record (Some ''bare'') (Some ''Bare'') bare_url"

definition untitled_record :: scraped where
  "untitled_record = page_record (Some ''untitled'') None untitled_url"

definition root_record :: scraped where
  "root_record = page_record (Some []) (Some ''Hub'') root_url"

text \<open>
  A detail page whose documentation section links to a page beside it whose name begins
  with \<open>http\<close>, on a site that serves it, and the record the assembler gives for it.
\<close>

definition guide_url :: string where
  "guide_url = ''https://hub.pointfive.co/hub/inefficiencies/guide''"

definition guide_body :: node where
  "guide_body = Element ''body'' []
     [Element ''h1'' [] [Text ''Guide page''],
      Element ''h2'' [] [Text ''Relevant Documentation''],
      Element ''p'' []
        [Text ''See the '',
         Element ''a'' [(''href'', ''http-guide.html'')] [Text ''Guide'']]]"

definition guide_platform :: platform where
  "guide_platform =
     \<lparr>fetch = (\<lambda>u. if u = guide_url then Response 200 ''OK'' guide_body else Aborted),
      URL_pathname = plain_pathname,
      URL_resolve = plain_resolve,
      Date_parse = iso_timestamp,
      clock = (\<lambda>i. sample_time)\<rparr>"

definition guide_record :: scraped where
  "guide_record =
     \<lparr>id' = Some ''guide'', title = Some ''Guide page'', author = Some ''See the Guide'',
      service_category = None, cloud_provider = None, service_name = None,
      inefficiency_type = None, explanation = [], billing_model = [],
      detection_signals = [], remediation_actions = [],
      documentation_links = [\<lparr>link_title = Some ''Guide'', link_url = ''http-guide.html''\<rparr>],
      tags = [],
      source = \<lparr>source_url = Some guide_url,
                source_origin = ''pointfive_cloud_efficiency_hub''\<rparr>,
      scraped_at = sample_time\<rparr>"

text \<open>
  A hub of two index pages with six detail pages between them, one of them linked three
  times; the third index page has no links. No detail page answers.
\<close>

definition hub_page_1 :: node where
  "hub_page_1 = Element ''body'' []
     [Element ''a'' [(''href'', ''/hub'')] [Text ''Hub''],
      Element ''a'' [(''href'', ''/hub/inefficiencies/b'')] [Text ''B''],
      Element ''a'' [(''href'', ''/hub/inefficiencies/a'')] [Text ''A''],
      Element ''a'' [(''href'', ''/hub/inefficiencies/f'')] [Text ''F''],
      Element ''a'' [(''href'', ''https://hub.pointfive.co/hub/inefficiencies/b'')] [Text ''B'']]"

definition hub_page_2 :: node where
  "hub_page_2 = Element ''body'' []
     [Element ''a'' [(''href'', ''/hub/inefficiencies/e'')] [Text ''E''],
      Element ''a'' [(''href'', ''/hub/inefficiencies/c'')] [Text ''C''],
      Element ''a'' [(''href'', ''/hub/inefficiencies/d'')] [Text ''D''],
      Element ''a'' [(''href'', ''/hub/inefficiencies/b'')] [Text ''B'']]"

definition two_page_hub :: platform where
  "two_page_hub =
     \<lparr>fetch = (\<lambda>u.
        if u = ''https://hub.pointfive.co/hub'' then Response 200 ''OK'' hub_page_1
        else if u = ''https://hub.pointfive.co/hub?ffbc0c57_page=2''
        then Response 200 ''OK'' hub_page_2
        else if u = ''https://hub.pointfive.co/hub?ffbc0c57_page=3''
        then Response 200 ''OK'' (Element ''body'' [] [])
        else Aborted),
      URL_pathname = plain_pathname,
      URL_resolve = plain_resolve,
      Date_parse = iso_timestamp,
      clock = (\<lambda>i. sample_time)\<rparr>"

definition two_page_links :: "nat \<Rightarrow> string list" where
  "two_page_links p =
     (if p = 1 then [''https://hub.pointfive.co/hub/inefficiencies/b'',
                     ''https://hub.pointfive.co/hub/inefficiencies/a'',
                     ''https://hub.pointfive.co/hub/inefficiencies/f'',
                     ''https://hub.pointfive.co/hub/inefficiencies/b'']
      else [''https://hub.pointfive.co/hub/inefficiencies/e'',
            ''https://hub.pointfive.co/hub/inefficiencies/c'',
            ''https://hub.pointfive.co/hub/inefficiencies/d'',
            ''https://hub.pointfive.co/hub/inefficiencies/b''])"

text \<open>
  A hub of thirty-one index pages: the first thirty link to one detail page, the
  thirty-first to another, and the thirty-second has no links.
\<close>

definition early_page :: node where
  "early_page =
     Element ''body'' [] [Element ''a'' [(''href'', ''/hub/inefficiencies/early'')] []]"

definition late_page :: node where
  "late_page =
     Element ''body'' [] [Element ''a'' [(''href'', ''/hub/inefficiencies/late'')] []]"

definition long_hub :: platform where
  "long_hub =
     \<lparr>fetch = (\<lambda>u.
        if u = indexUrl 31 then Response 200 ''OK'' late_page
        else if u = indexUrl 32 then Response 200 ''OK'' (Element ''body'' [] [])
        else Response 200 ''OK'' early_page),
      URL_pathname = plain_pathname,
      URL_resolve = plain_resolve,
      Date_parse = iso_timestamp,
      clock = (\<lambda>i. sample_time)\<rparr>"

definition long_hub_links :: "nat \<Rightarrow> string list" where
  "long_hub_links p =
     (if p = 31 then [''https://hub.pointfive.co/hub/inefficiencies/late'']
      else if p = 32 then []
      else [''https://hub.pointfive.co/hub/inefficiencies/early''])"

section \<open>The field locator is the scan of the text sequence\<close>

lemma findFieldValue_loop_seen:
  "findFieldValue_loop True l ns =
     (case filter (\<lambda>v. v \<noteq> []) (map (\<lambda>n. textValue (fst n)) ns) of
        [] \<Rightarrow> None | v # _ \<Rightarrow> Some v)"
  by (induction ns) (simp_all add: Let_def)

lemma findFieldValue_loop_locate:
  "findFieldValue_loop False l ns =
     locate_field (filter (\<lambda>v. v \<noteq> []) (map (\<lambda>n. textValue (fst n)) ns)) l"
  by (induction ns) (simp_all add: Let_def locate_field_def findFieldValue_loop_seen)

lemma findFieldValue_locate:
  "findFieldValue body l = locate_field (text_values body) l"
  by (simp add: findFieldValue_def text_values_def findFieldValue_loop_locate)

lemma dropWhile_to_first:
  "l \<notin> set pre \<Longrightarrow> dropWhile (\<lambda>v. v \<noteq> l) (pre @ l # after) = l # after"
  by (induction pre) auto

lemma dropWhile_absent:
  "l \<notin> set vs \<Longrightarrow> dropWhile (\<lambda>v. v \<noteq> l) vs = []"
  by (induction vs) auto

lemma locate_field_first:
  "l \<notin> set pre \<Longrightarrow>
   locate_field (pre @ l # after) l = (case after of [] \<Rightarrow> None | v # _ \<Rightarrow> Some v)"
  by (simp add: locate_field_def dropWhile_to_first)

lemma locate_field_absent:
  "l \<notin> set vs \<Longrightarrow> locate_field vs l = None"
  by (simp add: locate_field_def dropWhile_absent)

text \<open>
  C4. For every document and label, \<open>findFieldValue\<close> scans the text sequence of the
  document (the trimmed, non-empty text values in document order): it goes to the first
  value equal to the label and returns the value that follows it. It returns absent when
  the label does not occur and when nothing follows its first occurrence; later
  occurrences of the label do not matter.
\<close>

theorem field_locator_first_occurrence:
  "findFieldValue body l = locate_field (text_values body) l
   \<and> (l \<notin> set (text_values body) \<longrightarrow> findFieldValue body l = None)
   \<and> (\<forall>pre. text_values body = pre @ [l] \<and> l \<notin> set pre \<longrightarrow> findFieldValue body l = None)
   \<and> (\<forall>pre v post. text_values body = pre @ l # v # post \<and> l \<notin> set pre
         \<longrightarrow> findFieldValue body l = Some v)"
  by (auto simp: findFieldValue_locate locate_field_first locate_field_absent)

theorem field_locator_first_occurrence_witness:
  "text_values two_labels_body = [] @ ''Cloud Provider'' # ''AWS'' # [''Cloud Provider'', ''Azure'']
   \<and> ''Cloud Provider'' \<notin> set ([] :: string list)
   \<and> findFieldValue two_labels_body ''Cloud Provider'' = Some ''AWS''"
proof -
  have tv: "text_values two_labels_body
              = [] @ ''Cloud Provider'' # ''AWS'' # [''Cloud Provider'', ''Azure'']"
    by (simp add: two_labels_body_def text_values_def text_nodes_def textValue_def trim_def
                  is_space_def)
  from field_locator_first_occurrence [of two_labels_body "''Cloud Provider''"]
  have "\<forall>pre v post. text_values two_labels_body = pre @ ''Cloud Provider'' # v # post
           \<and> ''Cloud Provider'' \<notin> set pre
           \<longrightarrow> findFieldValue two_labels_body ''Cloud Provider'' = Some v"
    by blast
  with tv have "findFieldValue two_labels_body ''Cloud Provider'' = Some ''AWS''"
    by (metis empty_iff list.set(1))
  with tv show ?thesis by simp
qed

section \<open>The paragraph extractor collects up to the next heading\<close>

lemma paragraph_loop_in:
  "extractSectionParagraph_loop True acc h ns =
     acc @ takeWhile (\<lambda>v. \<not> (v \<in> set SECTION_TITLES \<and> v \<noteq> h))
             (filter (\<lambda>v. v \<noteq> []) (map (\<lambda>n. textValue (fst n)) ns))"
  by (induction ns arbitrary: acc) (simp_all add: Let_def)

lemma paragraph_loop_out:
  "extractSectionParagraph_loop False acc h ns =
     acc @ section_fragments (filter (\<lambda>v. v \<noteq> []) (map (\<lambda>n. textValue (fst n)) ns)) h"
  by (induction ns arbitrary: acc) (simp_all add: Let_def section_fragments_def paragraph_loop_in)

lemma extractSectionParagraph_paragraph_of:
  "extractSectionParagraph body h = paragraph_of (text_values body) h"
  by (simp add: extractSectionParagraph_def paragraph_of_def text_values_def paragraph_loop_out Let_def)

lemma section_fragments_split:
  assumes "h \<notin> set pre" and "\<forall>v\<in>set frags. \<not> (v \<in> set SECTION_TITLES \<and> v \<noteq> h)"
    and "rest = [] \<or> (hd rest \<in> set SECTION_TITLES \<and> hd rest \<noteq> h)"
  shows "section_fragments (pre @ h # frags @ rest) h = frags"
proof -
  have "dropWhile (\<lambda>v. v \<noteq> h) (pre @ h # frags @ rest) = h # frags @ rest"
    using assms(1) by (rule dropWhile_to_first)
  moreover have "takeWhile (\<lambda>v. \<not> (v \<in> set SECTION_TITLES \<and> v \<noteq> h)) (frags @ rest) = frags"
  proof (cases rest)
    case Nil
    then show ?thesis using assms(2) by simp
  next
    case (Cons r rs)
    then show ?thesis using assms(2,3) by (simp add: takeWhile_tail)
  qed
  ultimately show ?thesis by (simp add: section_fragments_def)
qed

lemma section_fragments_absent:
  "h \<notin> set vs \<Longrightarrow> section_fragments vs h = []"
  by (simp add: section_fragments_def dropWhile_absent)

lemma section_fragments_no_other_heading:
  "v \<in> set (section_fragments vs h) \<Longrightarrow> \<not> (v \<in> set SECTION_TITLES \<and> v \<noteq> h)"
  unfolding section_fragments_def by (auto dest: set_takeWhileD)

lemma single_spaced_Cons:
  "single_spaced (c # xs) =
     ((is_space c \<longrightarrow> c = CHR 0x20 \<and> (xs = [] \<or> \<not> is_space (hd xs))) \<and> single_spaced xs)"
  by (cases xs) auto

lemma collapse_ws_head:
  "collapse_ws s = [] \<or> (is_space (hd (collapse_ws s)) \<longrightarrow> s \<noteq> [] \<and> is_space (hd s))"
  by (cases s) auto

lemma single_spaced_collapse: "single_spaced (collapse_ws s)"
proof (induction s rule: collapse_ws.induct)
  case 1
  then show ?case by simp
next
  case (2 c cs)
  show ?case
  proof (cases "is_space c")
    case True
    let ?r = "dropWhile is_space cs"
    have "?r = [] \<or> \<not> is_space (hd ?r)"
      by (metis hd_dropWhile)
    then have "collapse_ws ?r = [] \<or> \<not> is_space (hd (collapse_ws ?r))"
      using collapse_ws_head [of ?r] by blast
    then show ?thesis using True 2 by (simp add: single_spaced_Cons)
  next
    case False
    then show ?thesis using 2 by (simp add: single_spaced_Cons)
  qed
qed

lemma single_spaced_dropWhile: "single_spaced s \<Longrightarrow> single_spaced (dropWhile P s)"
  by (induction s) (auto simp: single_spaced_Cons)

lemma single_spaced_append: "single_spaced (xs @ ys) \<Longrightarrow> single_spaced xs"
  by (induction xs) (auto simp: single_spaced_Cons hd_append)

lemma single_spaced_butlast_run:
  "single_spaced s \<Longrightarrow> single_spaced (rev (dropWhile P (rev s)))"
proof -
  assume a: "single_spaced s"
  have "s = rev (dropWhile P (rev s)) @ rev (takeWhile P (rev s))"
    by (metis rev_append rev_rev_ident takeWhile_dropWhile_id)
  then show ?thesis using a single_spaced_append by metis
qed

lemma single_spaced_trim: "single_spaced s \<Longrightarrow> single_spaced (trim s)"
  by (simp add: trim_def single_spaced_dropWhile single_spaced_butlast_run)

lemma trim_ends:
  "trim s = [] \<or> (\<not> is_space (hd (trim s)) \<and> \<not> is_space (last (trim s)))"
proof (cases "trim s = []")
  case True
  then show ?thesis by simp
next
  case False
  let ?d = "dropWhile is_space s"
  let ?e = "dropWhile is_space (rev ?d)"
  have e: "?e \<noteq> []" using False by (simp add: trim_def)
  then have l: "\<not> is_space (hd ?e)" by (metis hd_dropWhile)
  have "last (trim s) = hd ?e" using e by (simp add: trim_def last_rev)
  moreover have "hd (trim s) = last ?e" using e by (simp add: trim_def hd_rev)
  moreover have "\<not> is_space (last ?e)"
  proof -
    have d: "?d \<noteq> []"
    proof
      assume "?d = []"
      then have "?e = []" by (metis dropWhile.simps(1) rev.simps(1))
      with e show False by blast
    qed
    then have "\<not> is_space (hd ?d)" by (metis hd_dropWhile)
    moreover have "last (rev ?d) = hd ?d" using d by (simp add: last_rev)
    moreover have "last ?e = last (rev ?d)" using e
      by (metis last_appendR takeWhile_dropWhile_id)
    ultimately show ?thesis by simp
  qed
  ultimately show ?thesis using l by simp
qed



lemma text_values_trimmed:
  "v \<in> set (text_values body) \<Longrightarrow> v \<noteq> [] \<and> \<not> is_space (hd v)"
proof -
  assume "v \<in> set (text_values body)"
  then obtain s where v: "v = textValue s" and ne: "v \<noteq> []"
    by (auto simp: text_values_def)
  then have "v = trim s" by (auto simp: textValue_def split: if_splits)
  then show ?thesis using ne trim_ends [of s] by auto
qed

lemma section_fragments_subset:
  "set (section_fragments vs h) \<subseteq> set vs"
proof
  fix v
  assume "v \<in> set (section_fragments vs h)"
  then have "v \<in> set (drop 1 (dropWhile (\<lambda>v. v \<noteq> h) vs))"
    unfolding section_fragments_def by (rule set_takeWhileD [THEN conjunct1])
  then have "v \<in> set (dropWhile (\<lambda>v. v \<noteq> h) vs)"
    by (rule in_set_dropD)
  then show "v \<in> set vs" by (rule set_dropWhileD)
qed

lemma join_head:
  "fs \<noteq> [] \<Longrightarrow> hd fs \<noteq> [] \<Longrightarrow> join sep fs \<noteq> [] \<and> hd (join sep fs) = hd (hd fs)"
  by (induction sep fs rule: join.induct) auto

lemma collapse_ws_keeps_head:
  "s \<noteq> [] \<Longrightarrow> \<not> is_space (hd s) \<Longrightarrow> collapse_ws s \<noteq> [] \<and> hd (collapse_ws s) = hd s"
  by (cases s) auto

lemma trim_nonempty:
  "s \<noteq> [] \<Longrightarrow> \<not> is_space (hd s) \<Longrightarrow> trim s \<noteq> []"
  by (cases s) (auto simp: trim_def)

lemma paragraph_text_nonempty:
  assumes "fs \<noteq> []" and "\<forall>v\<in>set fs. v \<noteq> [] \<and> \<not> is_space (hd v)"
  shows "trim (collapse_ws (join '' '' fs)) \<noteq> []"
proof -
  have h: "hd fs \<noteq> [] \<and> \<not> is_space (hd (hd fs))" using assms by simp
  then have "join '' '' fs \<noteq> [] \<and> hd (join '' '' fs) = hd (hd fs)"
    using assms(1) join_head by blast
  then have "collapse_ws (join '' '' fs) \<noteq> [] \<and> \<not> is_space (hd (collapse_ws (join '' '' fs)))"
    using h collapse_ws_keeps_head by metis
  then show ?thesis using trim_nonempty by blast
qed

text \<open>
  C3. For every document and heading, \<open>extractSectionParagraph\<close> enters the section at
  the first value of the text sequence equal to the heading and collects the values that
  follow, up to the first value that is a different member of the heading registry. The
  result is the fragments joined with one space, runs of whitespace collapsed to one
  space, and trimmed; it is absent when the heading does not occur or nothing is
  collected. A result that is present is not empty, has whitespace only as single spaces
  and has none at its ends.
\<close>

theorem paragraph_section:
  "extractSectionParagraph body h = paragraph_of (text_values body) h
   \<and> (h \<notin> set (text_values body) \<longrightarrow> extractSectionParagraph body h = None)
   \<and> (\<forall>pre frags rest.
         text_values body = pre @ h # frags @ rest \<and> h \<notin> set pre
         \<and> (\<forall>v\<in>set frags. \<not> (v \<in> set SECTION_TITLES \<and> v \<noteq> h))
         \<and> (rest = [] \<or> (hd rest \<in> set SECTION_TITLES \<and> hd rest \<noteq> h))
         \<longrightarrow> extractSectionParagraph body h
               = (if frags = [] then None
                  else Some (trim (collapse_ws (join '' '' frags)))))
   \<and> (\<forall>r. extractSectionParagraph body h = Some r
         \<longrightarrow> r \<noteq> [] \<and> single_spaced r \<and> \<not> is_space (hd r) \<and> \<not> is_space (last r))"
proof (intro conjI allI impI)
  show eq: "extractSectionParagraph body h = paragraph_of (text_values body) h"
    by (rule extractSectionParagraph_paragraph_of)
  show "extractSectionParagraph body h = None" if "h \<notin> set (text_values body)"
    using that by (simp add: eq paragraph_of_def section_fragments_absent)
  show "extractSectionParagraph body h
          = (if frags = [] then None else Some (trim (collapse_ws (join '' '' frags))))"
    if "text_values body = pre @ h # frags @ rest \<and> h \<notin> set pre
        \<and> (\<forall>v\<in>set frags. \<not> (v \<in> set SECTION_TITLES \<and> v \<noteq> h))
        \<and> (rest = [] \<or> (hd rest \<in> set SECTION_TITLES \<and> hd rest \<noteq> h))"
    for pre frags rest
    using that by (simp add: eq paragraph_of_def section_fragments_split)
next
  fix r
  assume "extractSectionParagraph body h = Some r"
  then have fr: "section_fragments (text_values body) h \<noteq> []"
    and r: "r = trim (collapse_ws (join '' '' (section_fragments (text_values body) h)))"
    by (auto simp: extractSectionParagraph_paragraph_of paragraph_of_def split: if_splits)
  have "\<forall>v\<in>set (section_fragments (text_values body) h). v \<noteq> [] \<and> \<not> is_space (hd v)"
    using section_fragments_subset text_values_trimmed by blast
  with fr have ne: "r \<noteq> []" unfolding r by (rule paragraph_text_nonempty)
  have ss: "single_spaced r" unfolding r by (simp add: single_spaced_trim single_spaced_collapse)
  have "\<not> is_space (hd r) \<and> \<not> is_space (last r)" using ne trim_ends unfolding r by blast
  with ne ss show "r \<noteq> []" "single_spaced r" "\<not> is_space (hd r)" "\<not> is_space (last r)"
    by simp_all
qed


lemma explanation_values:
  "text_values explanation_body =
     [''Idle EC2''] @ ''Explanation'' # [''Idle   instances\<newline> cost money.'', ''Stop'', ''them.'']
       @ [''Detection'', ''Look at CPU.'']"
  by (simp add: explanation_body_def text_values_def text_nodes_def textValue_def trim_def
                is_space_def)

lemma ex_collapse: "trim (collapse_ws (join '' '' [''Idle   instances\<newline> cost money.'', ''Stop'', ''them.'']))
   = ''Idle instances cost money. Stop them.''"
  by (simp add: trim_def is_space_def)

theorem paragraph_section_witness:
  "text_values explanation_body =
     [''Idle EC2''] @ ''Explanation'' # [''Idle   instances\<newline> cost money.'', ''Stop'', ''them.'']
       @ [''Detection'', ''Look at CPU.'']
   \<and> extractSectionParagraph explanation_body ''Explanation''
       = Some ''Idle instances cost money. Stop them.''
   \<and> single_spaced ''Idle instances cost money. Stop them.''"
proof -
  let ?frags = "[''Idle   instances\<newline> cost money.'', ''Stop'', ''them.'']"
  let ?rest = "[''Detection'', ''Look at CPU.'']"
  note t = paragraph_section [of explanation_body "''Explanation''"]
  have split: "text_values explanation_body = [''Idle EC2''] @ ''Explanation'' # ?frags @ ?rest
      \<and> ''Explanation'' \<notin> set [''Idle EC2'']
      \<and> (\<forall>v\<in>set ?frags. \<not> (v \<in> set SECTION_TITLES \<and> v \<noteq> ''Explanation''))
      \<and> (?rest = [] \<or> (hd ?rest \<in> set SECTION_TITLES \<and> hd ?rest \<noteq> ''Explanation''))"
    by (simp add: explanation_values SECTION_TITLES_def)
  from t have "\<forall>pre frags rest.
         text_values explanation_body = pre @ ''Explanation'' # frags @ rest \<and> ''Explanation'' \<notin> set pre
         \<and> (\<forall>v\<in>set frags. \<not> (v \<in> set SECTION_TITLES \<and> v \<noteq> ''Explanation''))
         \<and> (rest = [] \<or> (hd rest \<in> set SECTION_TITLES \<and> hd rest \<noteq> ''Explanation''))
         \<longrightarrow> extractSectionParagraph explanation_body ''Explanation''
               = (if frags = [] then None
                  else Some (trim (collapse_ws (join '' '' frags))))"
    by blast
  then have "extractSectionParagraph explanation_body ''Explanation''
               = (if ?frags = [] then None else Some (trim (collapse_ws (join '' '' ?frags))))"
    using split by blast
  then have r: "extractSectionParagraph explanation_body ''Explanation''
               = Some ''Idle instances cost money. Stop them.''"
    by (simp only: ex_collapse list.distinct if_False)
  with t have "single_spaced ''Idle instances cost money. Stop them.''" by blast
  with r split show ?thesis by blast
qed

section \<open>The list extractor returns the items below the nearest list\<close>

lemma findHeading_loop_find:
  "findHeading_loop h ns = find (\<lambda>n. textValue (fst n) = h \<and> h \<noteq> []) ns"
  by (induction ns) (auto simp: Let_def)

lemma querySelector_ul:
  "(querySelector ''ul'' c \<noteq> None) = (filter (is_tag ''ul'') (descendants c) \<noteq> [])"
  by (simp add: querySelector_def querySelectorAll_def split: list.splits)

lemma findContainer_find:
  "findContainer anc = find (\<lambda>c. filter (is_tag ''ul'') (descendants c) \<noteq> []) anc"
  by (induction anc) (auto simp: querySelector_def querySelectorAll_def split: list.splits)

lemma collect_items_texts: "collect_items lis acc = acc @ item_texts lis"
  by (induction lis arbitrary: acc) (simp_all add: item_texts_def Let_def)

lemma find_ul_has:
  "find (\<lambda>c. filter (is_tag ''ul'') (descendants c) \<noteq> []) anc = Some c
   \<Longrightarrow> filter (is_tag ''ul'') (descendants c) \<noteq> []"
  by (induction anc) (auto split: if_splits)

lemma extractSectionList_descendants:
  "extractSectionList body h = list_of_item_descendants body h"
proof (cases "findHeading_loop h (text_nodes body)")
  case None
  then show ?thesis
    by (simp add: extractSectionList_def list_of_item_descendants_def nearest_list_def
                  findHeading_loop_find [symmetric])
next
  case (Some n)
  show ?thesis
  proof (cases "findContainer (snd n)")
    case None
    then show ?thesis using Some
      by (simp add: extractSectionList_def list_of_item_descendants_def nearest_list_def
                  findHeading_loop_find [symmetric] findContainer_find [symmetric])
  next
    case c: (Some c)
    then have "filter (is_tag ''ul'') (descendants c) \<noteq> []"
      by (simp add: findContainer_find find_ul_has)
    then obtain u us where u: "filter (is_tag ''ul'') (descendants c) = u # us"
      by (cases "filter (is_tag ''ul'') (descendants c)") auto
    then have q: "querySelector ''ul'' c = Some u"
      by (simp add: querySelector_def querySelectorAll_def)
    show ?thesis using Some c u q
      by (simp add: extractSectionList_def list_of_item_descendants_def nearest_list_def
                  findHeading_loop_find [symmetric] findContainer_find [symmetric]
                  collect_items_texts querySelectorAll_def)
  qed
qed

lemma heading_absent_no_list:
  assumes "h \<notin> set (text_values body)"
  shows "nearest_list body h = None"
proof -
  have "find (\<lambda>n. textValue (fst n) = h \<and> h \<noteq> []) (text_nodes body) = None"
    using assms by (force simp: find_None_iff text_values_def)
  then show ?thesis by (simp add: nearest_list_def)
qed

lemma item_texts_trimmed:
  "t \<in> set (item_texts lis) \<Longrightarrow> t \<noteq> [] \<and> \<not> is_space (hd t) \<and> \<not> is_space (last t)"
  using trim_ends by (auto simp: item_texts_def)

lemma nested_list_extracted:
  "extractSectionList nested_list_body ''Detection''
     = [''Check tags on volumes'', ''on volumes'']"
  by (simp add: nested_list_body_def extractSectionList_def text_nodes_def textValue_def
        trim_def is_space_def querySelector_def querySelectorAll_def Let_def)

lemma nested_list_children:
  "list_of_item_children nested_list_body ''Detection'' = [''Check tags on volumes'']"
  by (simp add: nested_list_body_def list_of_item_children_def nearest_list_def
        item_texts_def text_nodes_def textValue_def trim_def is_space_def Let_def)

text \<open>
  C5, as stated, fails: the extractor does not return the item \<^emph>\<open>children\<close> of the list.
  On a list whose item holds a list of its own it returns two entries, the outer item
  (with the text of the inner one inside it) and the inner item again, where the item
  children are one.
\<close>

theorem list_item_children_counterexample:
  "extractSectionList nested_list_body ''Detection''
     = [''Check tags on volumes'', ''on volumes'']
   \<and> list_of_item_children nested_list_body ''Detection'' = [''Check tags on volumes'']
   \<and> extractSectionList nested_list_body ''Detection''
       \<noteq> list_of_item_children nested_list_body ''Detection''"
  by (simp add: nested_list_extracted nested_list_children)

text \<open>
  C5, amended. For every document and heading, \<open>extractSectionList\<close> returns the trimmed
  text of all \<open>li\<close> elements below the first \<open>ul\<close> element found within the nearest
  ancestor of the heading's text node that has a \<open>ul\<close> below it (the \<open>li\<close>
  descendants of that list, at any depth, not only its children), in document order with
  the empty items dropped. It returns the empty sequence when the heading does not occur,
  when no ancestor has a list below it, and when the list has no non-empty item; there is
  no error case. Every returned item is non-empty and trimmed, and where the items of the
  list are all its children the result is the text of the item children.
\<close>

theorem list_section_items:
  "extractSectionList body h = list_of_item_descendants body h
   \<and> (h \<notin> set (text_values body) \<longrightarrow> extractSectionList body h = [])
   \<and> (nearest_list body h = None \<longrightarrow> extractSectionList body h = [])
   \<and> (\<forall>ul. nearest_list body h = Some ul
         \<longrightarrow> extractSectionList body h
               = item_texts (filter (is_tag ''li'') (descendants ul)))
   \<and> (\<forall>ul. nearest_list body h = Some ul
           \<and> (\<forall>li\<in>set (filter (is_tag ''li'') (descendants ul)). trim (textContent li) = [])
         \<longrightarrow> extractSectionList body h = [])
   \<and> (\<forall>ul. nearest_list body h = Some ul
           \<and> filter (is_tag ''li'') (descendants ul) = filter (is_tag ''li'') (children ul)
         \<longrightarrow> extractSectionList body h = list_of_item_children body h)
   \<and> (\<forall>t\<in>set (extractSectionList body h).
         t \<noteq> [] \<and> \<not> is_space (hd t) \<and> \<not> is_space (last t))"
proof (intro conjI allI impI ballI)
  show eq: "extractSectionList body h = list_of_item_descendants body h"
    by (rule extractSectionList_descendants)
  show "extractSectionList body h = []" if "h \<notin> set (text_values body)"
    using that by (simp add: eq list_of_item_descendants_def heading_absent_no_list)
  show "extractSectionList body h = []" if "nearest_list body h = None"
    using that by (simp add: eq list_of_item_descendants_def)
  show "extractSectionList body h = item_texts (filter (is_tag ''li'') (descendants ul))"
    if "nearest_list body h = Some ul" for ul
    using that by (simp add: eq list_of_item_descendants_def)
  show "extractSectionList body h = []"
    if "nearest_list body h = Some ul
        \<and> (\<forall>li\<in>set (filter (is_tag ''li'') (descendants ul)). trim (textContent li) = [])"
    for ul
  proof -
    have "item_texts (filter (is_tag ''li'') (descendants ul)) = []"
      using that unfolding item_texts_def by (auto simp: filter_empty_conv)
    then show ?thesis using that by (simp add: eq list_of_item_descendants_def)
  qed
  show "extractSectionList body h = list_of_item_children body h"
    if "nearest_list body h = Some ul
        \<and> filter (is_tag ''li'') (descendants ul) = filter (is_tag ''li'') (children ul)"
    for ul
    using that by (simp add: eq list_of_item_descendants_def list_of_item_children_def)
next
  fix t
  assume "t \<in> set (extractSectionList body h)"
  then have "t \<in> set (list_of_item_descendants body h)"
    by (simp add: extractSectionList_descendants)
  then obtain ul where "t \<in> set (item_texts (filter (is_tag ''li'') (descendants ul)))"
    by (auto simp: list_of_item_descendants_def split: option.splits)
  then have "t \<noteq> [] \<and> \<not> is_space (hd t) \<and> \<not> is_space (last t)"
    by (rule item_texts_trimmed)
  then show "t \<noteq> []" "\<not> is_space (hd t)" "\<not> is_space (last t)" by simp_all
qed

lemma detection_nearest_list:
  "nearest_list detection_body ''Detection'' =
     Some (Element ''ul'' []
           [Element ''li'' [] [Text ''Check tag X''],
            Text ''\<newline>'',
            Element ''li'' [] [Text '' Check tag Y ''],
            Element ''li'' [] [Text ''   ''],
            Element ''li'' [] [Text ''Check '', Element ''code'' [] [Text ''tag Z'']]])"
  by (simp add: detection_body_def nearest_list_def text_nodes_def textValue_def trim_def
        is_space_def)

theorem list_section_items_witness:
  "nearest_list detection_body ''Detection'' =
     Some (Element ''ul'' []
           [Element ''li'' [] [Text ''Check tag X''],
            Text ''\<newline>'',
            Element ''li'' [] [Text '' Check tag Y ''],
            Element ''li'' [] [Text ''   ''],
            Element ''li'' [] [Text ''Check '', Element ''code'' [] [Text ''tag Z'']]])
   \<and> extractSectionList detection_body ''Detection''
       = [''Check tag X'', ''Check tag Y'', ''Check tag Z'']"
proof -
  let ?ul = "Element ''ul'' []
           [Element ''li'' [] [Text ''Check tag X''],
            Text ''\<newline>'',
            Element ''li'' [] [Text '' Check tag Y ''],
            Element ''li'' [] [Text ''   ''],
            Element ''li'' [] [Text ''Check '', Element ''code'' [] [Text ''tag Z'']]]"
  from list_section_items [of detection_body "''Detection''"]
  have "\<forall>ul. nearest_list detection_body ''Detection'' = Some ul
         \<longrightarrow> extractSectionList detection_body ''Detection''
               = item_texts (filter (is_tag ''li'') (descendants ul))"
    by blast
  then have "extractSectionList detection_body ''Detection''
               = item_texts (filter (is_tag ''li'') (descendants ?ul))"
    using detection_nearest_list by blast
  also have "\<dots> = [''Check tag X'', ''Check tag Y'', ''Check tag Z'']"
    by (simp add: item_texts_def trim_def is_space_def)
  finally show ?thesis using detection_nearest_list by simp
qed

section \<open>The link collector keeps the first entry for each URL\<close>

lemma find_url_None: "(find (\<lambda>x. link_url x = u) links = None) = (u \<notin> link_url ` set links)"
  by (auto simp: find_None_iff)

lemma collect_anchors_those:
  "collect_anchors resolve as links =
     (case those (map (cand resolve) (anchor_hrefs as)) of
        None \<Rightarrow> Inl ''Invalid URL''
      | Some cs \<Rightarrow> Inr (foldl add_link links cs))"
proof (induction as arbitrary: links)
  case Nil
  then show ?case by (simp add: anchor_hrefs_def)
next
  case (Cons a as)
  have ah: "anchor_hrefs (a # as) =
      (case getAttribute ''href'' a of None \<Rightarrow> [] | Some h \<Rightarrow> if h = [] then [] else [(a, h)])
      @ anchor_hrefs as"
    by (simp add: anchor_hrefs_def)
  show ?case
  proof (cases "getAttribute ''href'' a")
    case None
    then show ?thesis using Cons ah by simp
  next
    case (Some h)
    show ?thesis
    proof (cases "h = []")
      case True
      then show ?thesis using Some Cons ah by simp
    next
      case False
      show ?thesis
      proof (cases "full_url resolve h")
        case None
        then show ?thesis using Some False ah by (simp add: cand_def)
      next
        case u: (Some u)
        then show ?thesis using Some False ah Cons
          by (simp add: cand_def Let_def find_url_None link_of_def add_link_def
                   split: option.splits)
      qed
    qed
  qed
qed


lemma collect_anchors_append:
  "collect_anchors resolve (as1 @ as2) links =
     (case collect_anchors resolve as1 links of
        Inl e \<Rightarrow> Inl e
      | Inr links' \<Rightarrow> collect_anchors resolve as2 links')"
  by (induction as1 arbitrary: links) (simp_all add: Let_def split: option.splits)

lemma links_loop_Cons:
  "extractDocumentationLinks_loop resolve afterHeading links (n # rest) =
     (if textValue (fst n) = [] then extractDocumentationLinks_loop resolve afterHeading links rest
      else if \<not> afterHeading then
        (if textValue (fst n) = ''Relevant Documentation''
         then extractDocumentationLinks_loop resolve True links rest
         else extractDocumentationLinks_loop resolve afterHeading links rest)
      else if other_heading n then Inr links
      else
        (case snd n of
           [] \<Rightarrow> extractDocumentationLinks_loop resolve afterHeading links rest
         | parentEl # _ \<Rightarrow>
             (case collect_anchors resolve (anchors_with_href parentEl) links of
                Inl e \<Rightarrow> Inl e
              | Inr links' \<Rightarrow>
                  extractDocumentationLinks_loop resolve afterHeading links' rest)))"
  by (simp add: Let_def other_heading_def)

lemma links_loop_in:
  "extractDocumentationLinks_loop resolve True links ns =
     collect_anchors resolve
       (region_anchors (takeWhile (\<lambda>n. \<not> other_heading n)
          (filter (\<lambda>n. textValue (fst n) \<noteq> []) ns))) links"
proof (induction ns arbitrary: links)
  case Nil
  then show ?case by (simp add: region_anchors_def)
next
  case (Cons n ns)
  show ?case
  proof (cases "textValue (fst n) = []")
    case True
    then show ?thesis using Cons
      by (simp add: links_loop_Cons del: extractDocumentationLinks_loop.simps(2))
  next
    case ne: False
    show ?thesis
    proof (cases "other_heading n")
      case True
      then show ?thesis using ne
        by (simp add: links_loop_Cons region_anchors_def
                 del: extractDocumentationLinks_loop.simps(2))
    next
      case False
      then show ?thesis using ne Cons
        by (cases "snd n")
           (simp_all add: links_loop_Cons region_anchors_def collect_anchors_append
              del: extractDocumentationLinks_loop.simps(2) split: sum.splits)
    qed
  qed
qed

lemma links_loop_out:
  "extractDocumentationLinks_loop resolve False links ns =
     collect_anchors resolve
       (region_anchors (takeWhile (\<lambda>n. \<not> other_heading n)
          (drop 1 (dropWhile (\<lambda>n. textValue (fst n) \<noteq> ''Relevant Documentation'')
             (filter (\<lambda>n. textValue (fst n) \<noteq> []) ns))))) links"
proof (induction ns arbitrary: links)
  case Nil
  then show ?case by (simp add: region_anchors_def)
next
  case (Cons n ns)
  show ?case
  proof (cases "textValue (fst n) = []")
    case True
    then show ?thesis using Cons
      by (simp add: links_loop_Cons del: extractDocumentationLinks_loop.simps(2))
  next
    case ne: False
    show ?thesis
    proof (cases "textValue (fst n) = ''Relevant Documentation''")
      case True
      then show ?thesis using ne
        by (simp add: links_loop_Cons links_loop_in
                 del: extractDocumentationLinks_loop.simps(2))
    next
      case False
      then show ?thesis using ne Cons
        by (simp add: links_loop_Cons del: extractDocumentationLinks_loop.simps(2))
    qed
  qed
qed

lemma extractDocumentationLinks_collect:
  "extractDocumentationLinks resolve body = collect_anchors resolve (met_anchors body) []"
  by (simp add: extractDocumentationLinks_def links_loop_out met_anchors_def
        documentation_region_def)

lemma foldl_add_link:
  "foldl add_link acc cs =
     acc @ first_per_url (filter (\<lambda>c. link_url c \<notin> link_url ` set acc) cs)"
proof (induction cs arbitrary: acc)
  case Nil
  then show ?case by simp
next
  case (Cons c cs)
  show ?case
  proof (cases "link_url c \<in> link_url ` set acc")
    case True
    then show ?thesis using Cons by (simp add: add_link_def)
  next
    case False
    have "filter (\<lambda>x. link_url x \<notin> link_url ` set (acc @ [c])) cs
          = filter (\<lambda>x. link_url x \<noteq> link_url c) (filter (\<lambda>x. link_url x \<notin> link_url ` set acc) cs)"
      by (induction cs) auto
    then show ?thesis using False Cons [of "acc @ [c]"] by (simp add: add_link_def)
  qed
qed

lemma extractDocumentationLinks_first_per_url:
  "extractDocumentationLinks resolve body =
     (case those (candidates resolve body) of
        None \<Rightarrow> Inl ''Invalid URL''
      | Some cs \<Rightarrow> Inr (first_per_url cs))"
  by (simp add: extractDocumentationLinks_collect collect_anchors_those candidates_def
        met_hrefs_def foldl_add_link split: option.splits)

lemma first_per_url_set: "link_url ` set (first_per_url cs) = link_url ` set cs"
  by (induction cs rule: first_per_url.induct) auto

lemma first_per_url_subset: "set (first_per_url cs) \<subseteq> set cs"
  by (induction cs rule: first_per_url.induct) auto

lemma first_per_url_distinct: "distinct (map link_url (first_per_url cs))"
proof (induction cs rule: first_per_url.induct)
  case 1
  then show ?case by simp
next
  case (2 c cs)
  have "link_url c \<notin> link_url ` set (first_per_url (filter (\<lambda>x. link_url x \<noteq> link_url c) cs))"
    by (auto simp: first_per_url_set)
  then show ?case using 2 by simp
qed


lemma those_Some_map: "those xs = Some ys \<Longrightarrow> xs = map Some ys"
  by (induction xs arbitrary: ys) (auto split: option.splits)

lemma anchor_hrefs_nonempty: "(a, h) \<in> set (anchor_hrefs as) \<Longrightarrow> h \<noteq> []"
  by (auto simp: anchor_hrefs_def split: option.splits if_splits)

lemma candidates_Some:
  assumes "those (candidates resolve body) = Some cs"
  shows "map (cand resolve) (met_hrefs body) = map Some cs"
  using assms those_Some_map by (simp add: candidates_def)

lemma candidate_origin:
  assumes "those (candidates resolve body) = Some cs" and "l \<in> set cs"
  shows "\<exists>(a, h)\<in>set (met_hrefs body).
           h \<noteq> [] \<and> (if startsWith ''http'' h then link_url l = h else resolve h = Some (link_url l))
           \<and> link_title l = (if trim (textContent a) = [] then None else Some (trim (textContent a)))"
proof -
  have "Some l \<in> set (map (cand resolve) (met_hrefs body))"
    using assms candidates_Some by force
  then obtain a h where m: "(a, h) \<in> set (met_hrefs body)" and c: "cand resolve (a, h) = Some l"
    by auto
  from c obtain u where u: "full_url resolve h = Some u" and l: "l = link_of a u"
    by (auto simp: cand_def)
  have "h \<noteq> []" using m anchor_hrefs_nonempty by (simp add: met_hrefs_def)
  moreover have "if startsWith ''http'' h then link_url l = h else resolve h = Some (link_url l)"
    using u l by (auto simp: full_url_def link_of_def split: if_splits)
  moreover have "link_title l = (if trim (textContent a) = [] then None else Some (trim (textContent a)))"
    using l by (simp add: link_of_def)
  ultimately show ?thesis using m by blast
qed

lemma candidate_covered:
  assumes "those (candidates resolve body) = Some cs" and "(a, h) \<in> set (met_hrefs body)"
  shows "\<exists>l\<in>set cs. full_url resolve h = Some (link_url l)"
proof -
  have "cand resolve (a, h) \<in> set (map Some cs)"
    using assms candidates_Some by (metis image_eqI set_map)
  then obtain l where l: "l \<in> set cs" and c: "cand resolve (a, h) = Some l" by auto
  then have "full_url resolve h = Some (link_url l)"
    by (auto simp: cand_def link_of_def)
  with l show ?thesis by blast
qed

lemma no_heading_no_region:
  assumes "''Relevant Documentation'' \<notin> set (text_values body)"
  shows "documentation_region body = []"
proof -
  have "\<forall>n\<in>set (filter (\<lambda>n. textValue (fst n) \<noteq> []) (text_nodes body)).
          textValue (fst n) \<noteq> ''Relevant Documentation''"
    using assms by (force simp: text_values_def)
  then have "dropWhile (\<lambda>n. textValue (fst n) \<noteq> ''Relevant Documentation'')
          (filter (\<lambda>n. textValue (fst n) \<noteq> []) (text_nodes body)) = []"
    by (simp only: dropWhile_eq_Nil_conv)
  then show ?thesis
    unfolding documentation_region_def by (simp only: drop_Nil takeWhile.simps)
qed

text \<open>
  What the collector computes. The anchors met with a non-empty href give the candidate
  entries, in the order met; when a resolution throws, the collector throws; otherwise
  its output is the candidates reduced to the first entry for each URL, so no two entries
  have the same URL. An entry's title is the anchor's trimmed text, or null when that is
  empty. Without the heading the output is empty.
\<close>

lemma link_collector:
  "(those (candidates resolve body) = None
      \<longrightarrow> extractDocumentationLinks resolve body = Inl ''Invalid URL'')
   \<and> (\<forall>cs. those (candidates resolve body) = Some cs
         \<longrightarrow> extractDocumentationLinks resolve body = Inr (first_per_url cs))
   \<and> (\<forall>links. extractDocumentationLinks resolve body = Inr links \<longrightarrow>
         distinct (map link_url links)
         \<and> (\<forall>l\<in>set links. \<exists>(a, h)\<in>set (met_hrefs body).
               h \<noteq> []
               \<and> (if startsWith ''http'' h then link_url l = h
                   else resolve h = Some (link_url l))
               \<and> link_title l = (if trim (textContent a) = [] then None
                                 else Some (trim (textContent a))))
         \<and> (\<forall>(a, h)\<in>set (met_hrefs body).
               \<exists>l\<in>set links. full_url resolve h = Some (link_url l)))
   \<and> (''Relevant Documentation'' \<notin> set (text_values body)
         \<longrightarrow> extractDocumentationLinks resolve body = Inr [])"
proof (intro conjI allI impI)
  show "extractDocumentationLinks resolve body = Inl ''Invalid URL''"
    if "those (candidates resolve body) = None"
    using that by (simp add: extractDocumentationLinks_first_per_url)
  show "extractDocumentationLinks resolve body = Inr (first_per_url cs)"
    if "those (candidates resolve body) = Some cs" for cs
    using that by (simp add: extractDocumentationLinks_first_per_url)
  show "extractDocumentationLinks resolve body = Inr []"
    if "''Relevant Documentation'' \<notin> set (text_values body)"
  proof -
    have "candidates resolve body = []"
      using that no_heading_no_region
      by (simp add: candidates_def met_hrefs_def met_anchors_def region_anchors_def
            anchor_hrefs_def)
    then show ?thesis by (simp add: extractDocumentationLinks_first_per_url)
  qed
next
  fix links
  assume r: "extractDocumentationLinks resolve body = Inr links"
  then obtain cs where cs: "those (candidates resolve body) = Some cs"
    and links: "links = first_per_url cs"
    by (auto simp: extractDocumentationLinks_first_per_url split: option.splits)
  show "distinct (map link_url links)"
    by (simp add: links first_per_url_distinct)
  show "\<forall>l\<in>set links. \<exists>(a, h)\<in>set (met_hrefs body).
               h \<noteq> []
               \<and> (if startsWith ''http'' h then link_url l = h
                   else resolve h = Some (link_url l))
               \<and> link_title l = (if trim (textContent a) = [] then None
                                 else Some (trim (textContent a)))"
  proof
    fix l
    assume "l \<in> set links"
    then have "l \<in> set cs" using links first_per_url_subset by blast
    with cs show "\<exists>(a, h)\<in>set (met_hrefs body).
               h \<noteq> []
               \<and> (if startsWith ''http'' h then link_url l = h
                   else resolve h = Some (link_url l))
               \<and> link_title l = (if trim (textContent a) = [] then None
                                 else Some (trim (textContent a)))"
      by (rule candidate_origin)
  qed
  show "\<forall>(a, h)\<in>set (met_hrefs body). \<exists>l\<in>set links. full_url resolve h = Some (link_url l)"
  proof (clarify)
    fix a h
    assume "(a, h) \<in> set (met_hrefs body)"
    with cs obtain c where c: "c \<in> set cs" and u: "full_url resolve h = Some (link_url c)"
      using candidate_covered by blast
    then have "link_url c \<in> link_url ` set links"
      by (simp add: links first_per_url_set)
    then show "\<exists>l\<in>set links. full_url resolve h = Some (link_url l)"
      using u by auto
  qed
qed

lemma relative_http_links:
  "extractDocumentationLinks plain_resolve relative_http_body
     = Inr [\<lparr>link_title = Some ''Guide'', link_url = ''http-guide.html''\<rparr>]"
  by (simp add: relative_http_body_def extractDocumentationLinks_def text_nodes_def
        textValue_def trim_def is_space_def SECTION_TITLES_def anchors_with_href_def
        full_url_def startsWith_def Let_def)

lemma http_guide_not_absolute: "\<not> is_absolute_url ''http-guide.html''"
  by (simp add: is_absolute_url_def is_alpha_def is_scheme_char_def)

text \<open>
  C6 fails on the code for a relative href that begins with the letters \<open>http\<close>. The
  collector takes such an href for an absolute URL and keeps it as it is, so the relative
  reference \<open>http-guide.html\<close> reaches the output unresolved: the entry's URL is not
  an absolute URL.
\<close>

theorem relative_href_kept_unresolved:
  "extractDocumentationLinks plain_resolve relative_http_body
     = Inr [\<lparr>link_title = Some ''Guide'', link_url = ''http-guide.html''\<rparr>]
   \<and> \<not> is_absolute_url ''http-guide.html''"
  by (simp add: relative_http_links http_guide_not_absolute)

lemma documentation_candidates:
  "candidates plain_resolve documentation_body =
     [Some \<lparr>link_title = Some ''EBS guide'', link_url = ''https://hub.pointfive.co/docs/ebs''\<rparr>,
      Some \<lparr>link_title = None, link_url = ''https://aws.example/pricing''\<rparr>,
      Some \<lparr>link_title = Some ''again'', link_url = ''https://hub.pointfive.co/docs/ebs''\<rparr>]"
  by (simp add: documentation_body_def candidates_def met_hrefs_def met_anchors_def
        documentation_region_def region_anchors_def anchor_hrefs_def other_heading_def cand_def
        link_of_def text_nodes_def
        textValue_def trim_def is_space_def SECTION_TITLES_def anchors_with_href_def
        full_url_def startsWith_def plain_resolve_def BASE_URL_def)


lemma link_collector_example:
  "those (candidates plain_resolve documentation_body) =
     Some [\<lparr>link_title = Some ''EBS guide'', link_url = ''https://hub.pointfive.co/docs/ebs''\<rparr>,
           \<lparr>link_title = None, link_url = ''https://aws.example/pricing''\<rparr>,
           \<lparr>link_title = Some ''again'', link_url = ''https://hub.pointfive.co/docs/ebs''\<rparr>]
   \<and> extractDocumentationLinks plain_resolve documentation_body =
     Inr [\<lparr>link_title = Some ''EBS guide'', link_url = ''https://hub.pointfive.co/docs/ebs''\<rparr>,
          \<lparr>link_title = None, link_url = ''https://aws.example/pricing''\<rparr>]"
proof -
  let ?cs = "[\<lparr>link_title = Some ''EBS guide'', link_url = ''https://hub.pointfive.co/docs/ebs''\<rparr>,
           \<lparr>link_title = None, link_url = ''https://aws.example/pricing''\<rparr>,
           \<lparr>link_title = Some ''again'', link_url = ''https://hub.pointfive.co/docs/ebs''\<rparr>]"
  have c: "those (candidates plain_resolve documentation_body) = Some ?cs"
    by (simp add: documentation_candidates)
  from link_collector [of plain_resolve documentation_body]
  have "\<forall>cs. those (candidates plain_resolve documentation_body) = Some cs
         \<longrightarrow> extractDocumentationLinks plain_resolve documentation_body
               = Inr (first_per_url cs)"
    by blast
  with c have "extractDocumentationLinks plain_resolve documentation_body
               = Inr (first_per_url ?cs)"
    by blast
  then show ?thesis using c by simp
qed

section \<open>The slug is the last segment of the path\<close>

lemma split_slash_nonempty: "split_slash q \<noteq> []"
  by (induction q) (auto split: list.splits)

lemma split_slash_snoc_slash: "split_slash (q @ ''/'') = split_slash q @ [[]]"
  by (induction q) (auto split: list.splits simp: split_slash_nonempty)

lemma split_slash_trailing:
  "\<forall>c\<in>set t. c = CHR ''/'' \<Longrightarrow> split_slash (q @ t) = split_slash q @ replicate (length t) []"
proof (induction t arbitrary: q)
  case Nil
  then show ?case by simp
next
  case (Cons c t)
  then have c: "c = CHR ''/''" by simp
  have "split_slash (q @ c # t) = split_slash ((q @ ''/'') @ t)" using c by simp
  also have "\<dots> = split_slash (q @ ''/'') @ replicate (length t) []"
    using Cons.IH [of "q @ ''/''"] Cons.prems by simp
  also have "\<dots> = split_slash q @ replicate (length (c # t)) []"
    by (simp add: split_slash_snoc_slash replicate_append_same)
  finally show ?case .
qed

lemma last_filter_keep:
  "xs \<noteq> [] \<Longrightarrow> P (last xs) \<Longrightarrow> last (filter P xs) = last xs"
  by (induction xs) (auto simp: filter_empty_conv)

lemma last_split_slash:
  "q \<noteq> [] \<Longrightarrow> last q \<noteq> CHR ''/'' \<Longrightarrow> last (split_slash q) \<noteq> []"
  by (induction q) (auto split: list.splits if_splits simp: split_slash_nonempty)

lemma strip_decompose:
  "\<exists>t. p = strip_trailing_slashes p @ t \<and> (\<forall>c\<in>set t. c = CHR ''/'')"
proof -
  let ?t = "rev (takeWhile (\<lambda>c. c = CHR ''/'') (rev p))"
  have "rev p = takeWhile (\<lambda>c. c = CHR ''/'') (rev p) @ dropWhile (\<lambda>c. c = CHR ''/'') (rev p)"
    by simp
  then have "p = strip_trailing_slashes p @ ?t"
    unfolding strip_trailing_slashes_def by (metis rev_append rev_rev_ident)
  moreover have "\<forall>c\<in>set ?t. c = CHR ''/''"
    by (auto dest: set_takeWhileD)
  ultimately show ?thesis by blast
qed

lemma strip_end:
  "strip_trailing_slashes p = [] \<or> last (strip_trailing_slashes p) \<noteq> CHR ''/''"
proof (cases "strip_trailing_slashes p = []")
  case True
  then show ?thesis by simp
next
  case False
  let ?d = "dropWhile (\<lambda>c. c = CHR ''/'') (rev p)"
  have d: "?d \<noteq> []" using False by (simp add: strip_trailing_slashes_def)
  then have "hd ?d \<noteq> CHR ''/''" by (metis (mono_tags, lifting) hd_dropWhile)
  moreover have "last (strip_trailing_slashes p) = hd ?d"
    using d by (simp add: strip_trailing_slashes_def last_rev)
  ultimately show ?thesis by simp
qed

lemma last_segment_is_last_nonempty:
  assumes "\<exists>s\<in>set (split_slash p). s \<noteq> []"
  shows "last (split_slash (strip_trailing_slashes p)) = last (filter (\<lambda>s. s \<noteq> []) (split_slash p))"
    and "last (split_slash (strip_trailing_slashes p)) \<noteq> []"
proof -
  let ?q = "strip_trailing_slashes p"
  obtain t where p: "p = ?q @ t" and t: "\<forall>c\<in>set t. c = CHR ''/''"
    using strip_decompose by blast
  have sp: "split_slash p = split_slash ?q @ replicate (length t) []"
    using split_slash_trailing [OF t, of ?q] p by simp
  have q: "?q \<noteq> []"
  proof
    assume "?q = []"
    then have "split_slash p = [] # replicate (length t) []" using sp by simp
    then have "\<forall>s\<in>set (split_slash p). s = []" by auto
    with assms show False by blast
  qed
  then have "last ?q \<noteq> CHR ''/''" using strip_end by blast
  with q show ne: "last (split_slash ?q) \<noteq> []" by (rule last_split_slash)
  have "filter (\<lambda>s. s \<noteq> []) (split_slash p) = filter (\<lambda>s. s \<noteq> []) (split_slash ?q)"
    using sp by simp
  then show "last (split_slash ?q) = last (filter (\<lambda>s. s \<noteq> []) (split_slash p))"
    using ne split_slash_nonempty by (simp add: last_filter_keep)
qed

lemma idle_ec2_pathname:
  "plain_pathname ''https://site/hub/inefficiencies/idle-ec2/'' = Some ''/hub/inefficiencies/idle-ec2/''"
  by (simp add: plain_pathname_def startsWith_def Let_def)

lemma idle_ec2_segments:
  "last (split_slash (strip_trailing_slashes ''/hub/inefficiencies/idle-ec2/'')) = ''idle-ec2''"
  by (simp add: strip_trailing_slashes_def)

lemma root_pathname: "plain_pathname ''https://hub.pointfive.co/'' = Some ''/''"
  by (simp add: plain_pathname_def startsWith_def Let_def)

lemma root_slug: "slugFromUrl plain_pathname ''https://hub.pointfive.co/'' = []"
  by (simp add: slugFromUrl_def root_pathname strip_trailing_slashes_def)

text \<open>
  C7 fails on the code for a URL whose path has no non-empty segment: for the root URL of
  the site, whose path is \<open>/\<close>, both segments of the path are empty and
  \<open>slugFromUrl\<close> returns the empty string, which is not a non-empty path segment.
\<close>

theorem slug_of_root_is_empty:
  "plain_pathname ''https://hub.pointfive.co/'' = Some ''/''
   \<and> split_slash ''/'' = [[], []]
   \<and> slugFromUrl plain_pathname ''https://hub.pointfive.co/'' = []"
  by (simp add: root_pathname root_slug)

text \<open>
  What \<open>slugFromUrl\<close> computes on the other URLs. For a URL that does not parse it
  returns the URL string itself. For a URL whose path has a non-empty segment it returns
  the last non-empty segment of the path. For
  \<open>https://site/hub/inefficiencies/idle-ec2/\<close>, whose path is
  \<open>/hub/inefficiencies/idle-ec2/\<close>, the result is \<open>idle-ec2\<close>.
\<close>

lemma slug_last_nonempty_segment:
  "(pathname url = None \<longrightarrow> slugFromUrl pathname url = url)
   \<and> (\<forall>p. pathname url = Some p
         \<longrightarrow> slugFromUrl pathname url = last (split_slash (strip_trailing_slashes p)))
   \<and> (\<forall>p. pathname url = Some p \<and> (\<exists>s\<in>set (split_slash p). s \<noteq> [])
         \<longrightarrow> slugFromUrl pathname url = last (filter (\<lambda>s. s \<noteq> []) (split_slash p))
             \<and> slugFromUrl pathname url \<noteq> [])
   \<and> (pathname ''https://site/hub/inefficiencies/idle-ec2/''
         = Some ''/hub/inefficiencies/idle-ec2/''
       \<longrightarrow> slugFromUrl pathname ''https://site/hub/inefficiencies/idle-ec2/'' = ''idle-ec2'')"
proof (intro conjI allI impI)
  show "slugFromUrl pathname url = url" if "pathname url = None"
    using that by (simp add: slugFromUrl_def)
  show "slugFromUrl pathname url = last (split_slash (strip_trailing_slashes p))"
    if "pathname url = Some p" for p
    using that by (simp add: slugFromUrl_def)
  show "slugFromUrl pathname ''https://site/hub/inefficiencies/idle-ec2/'' = ''idle-ec2''"
    if "pathname ''https://site/hub/inefficiencies/idle-ec2/''
          = Some ''/hub/inefficiencies/idle-ec2/''"
    using that by (simp add: slugFromUrl_def idle_ec2_segments)
next
  fix p
  assume a: "pathname url = Some p \<and> (\<exists>s\<in>set (split_slash p). s \<noteq> [])"
  then have s: "slugFromUrl pathname url = last (split_slash (strip_trailing_slashes p))"
    by (simp add: slugFromUrl_def)
  from a have e: "\<exists>s\<in>set (split_slash p). s \<noteq> []" by simp
  show "slugFromUrl pathname url = last (filter (\<lambda>s. s \<noteq> []) (split_slash p))"
    using s last_segment_is_last_nonempty(1) [OF e] by simp
  show "slugFromUrl pathname url \<noteq> []"
    using s last_segment_is_last_nonempty(2) [OF e] by simp
qed

lemma slug_last_nonempty_segment_example:
  "plain_pathname ''https://site/hub/inefficiencies/idle-ec2/''
     = Some ''/hub/inefficiencies/idle-ec2/''
   \<and> split_slash ''/hub/inefficiencies/idle-ec2/''
       = [[], ''hub'', ''inefficiencies'', ''idle-ec2'', []]
   \<and> slugFromUrl plain_pathname ''https://site/hub/inefficiencies/idle-ec2/'' = ''idle-ec2''
   \<and> last (filter (\<lambda>s. s \<noteq> []) (split_slash ''/hub/inefficiencies/idle-ec2/'')) = ''idle-ec2''"
proof -
  note t = slug_last_nonempty_segment
             [of plain_pathname "''https://site/hub/inefficiencies/idle-ec2/''"]
  have e: "\<exists>s\<in>set (split_slash ''/hub/inefficiencies/idle-ec2/''). s \<noteq> []"
    by simp
  from t idle_ec2_pathname
  have r: "slugFromUrl plain_pathname ''https://site/hub/inefficiencies/idle-ec2/'' = ''idle-ec2''"
    by blast
  from t idle_ec2_pathname e
  have "slugFromUrl plain_pathname ''https://site/hub/inefficiencies/idle-ec2/''
          = last (filter (\<lambda>s. s \<noteq> []) (split_slash ''/hub/inefficiencies/idle-ec2/''))"
    by blast
  moreover have "split_slash ''/hub/inefficiencies/idle-ec2/''
       = [[], ''hub'', ''inefficiencies'', ''idle-ec2'', []]"
    by simp
  ultimately show ?thesis using r idle_ec2_pathname by simp
qed

section \<open>What the validator flags\<close>

lemma link_errors_empty:
  "(link_errors idx links = []) = (\<not> list_ex (\<lambda>l. present_not_http (Some (link_url l))) links)"
  by (induction links arbitrary: idx) (auto simp: present_not_http_def)

lemma validator_tested:
  "(\<not> isValid (validateScrapedData date_ok data)) = invalid_as_tested date_ok data"
  by (auto simp: validateScrapedData_def invalid_as_tested_def Let_def missing_def
        link_errors_empty present_not_http_def split: option.splits)

lemma validator_errors:
  "isValid (validateScrapedData date_ok data) = (errors (validateScrapedData date_ok data) = [])"
  by (simp add: validateScrapedData_def Let_def)

lemma outcomes_Cons:
  "outcomes w i (url # rest) =
     (url, i, parseInefficiencyDetail w (clock w i) url) # outcomes w (Suc i) rest"
proof -
  have "[i ..< i + length (url # rest)] = i # [Suc i ..< Suc i + length rest]"
    by (subst upt_rec) simp
  then show ?thesis by (simp add: outcomes_def del: upt_Suc)
qed

lemma batch_loop_outcomes:
  "batch_loop w i urls st =
     \<lparr>results = results st @ assembled (outcomes w i urls),
      failures = failures st @ failed (outcomes w i urls),
      warnings = warnings st @ warned (Date_parse w) (outcomes w i urls)\<rparr>"
proof (induction urls arbitrary: i st)
  case Nil
  then show ?case by (simp add: outcomes_def assembled_def failed_def warned_def)
next
  case (Cons url rest)
  show ?case
  proof (cases "parseInefficiencyDetail w (clock w i) url")
    case (Inl m)
    then show ?thesis
      by (simp add: Cons outcomes_Cons assembled_def failed_def warned_def)
  next
    case (Inr rcd)
    then show ?thesis
      by (simp add: Cons outcomes_Cons assembled_def failed_def warned_def Let_def)
  qed
qed

lemma process_batch_outcomes:
  "process_batch w urls =
     \<lparr>results = assembled (outcomes w 0 urls),
      failures = failed (outcomes w 0 urls),
      warnings = warned (Date_parse w) (outcomes w 0 urls)\<rparr>"
  by (simp add: process_batch_def batch_loop_outcomes)

section \<open>The batch keeps going after a failure\<close>

lemma show_timeout: "show_nat FETCH_TIMEOUT_MS = ''8000''"
  by (simp add: FETCH_TIMEOUT_MS_def show_nat.simps digit_def)

lemma show_404: "show_nat 404 = ''404''"
  by (simp add: show_nat.simps digit_def)

lemma parse_bare:
  "parseInefficiencyDetail sample_platform sample_time bare_url = Inr bare_record"
  by (simp add: parseInefficiencyDetail_def fetchDocument_def sample_platform_def bare_url_def
        untitled_url_def root_url_def gone_url_def bare_record_def page_record_def
        mapToSchema_def Let_def
        extractDocumentationLinks_def text_nodes_def textValue_def trim_def is_space_def
        findFieldValue_def extractSectionParagraph_def extractSectionList_def
        SECTION_TITLES_def slugFromUrl_def plain_pathname_def startsWith_def
        strip_trailing_slashes_def)

lemma parse_untitled:
  "parseInefficiencyDetail sample_platform sample_time untitled_url = Inr untitled_record"
  by (simp add: parseInefficiencyDetail_def fetchDocument_def sample_platform_def bare_url_def
        untitled_url_def root_url_def gone_url_def untitled_record_def page_record_def
        mapToSchema_def Let_def
        extractDocumentationLinks_def text_nodes_def textValue_def trim_def is_space_def
        findFieldValue_def extractSectionParagraph_def extractSectionList_def
        SECTION_TITLES_def slugFromUrl_def plain_pathname_def startsWith_def
        strip_trailing_slashes_def)

lemma parse_root:
  "parseInefficiencyDetail sample_platform sample_time root_url = Inr root_record"
  by (simp add: parseInefficiencyDetail_def fetchDocument_def sample_platform_def bare_url_def
        untitled_url_def root_url_def gone_url_def root_record_def page_record_def
        mapToSchema_def Let_def
        extractDocumentationLinks_def text_nodes_def textValue_def trim_def is_space_def
        findFieldValue_def extractSectionParagraph_def extractSectionList_def
        SECTION_TITLES_def slugFromUrl_def plain_pathname_def startsWith_def
        strip_trailing_slashes_def)

lemma fetch_slow: "fetch sample_platform slow_url = Aborted"
  by (simp add: sample_platform_def bare_url_def untitled_url_def root_url_def gone_url_def
        slow_url_def)

lemma fetch_gone:
  "fetch sample_platform gone_url = Response 404 ''Not Found'' (Element ''body'' [] [])"
  by (simp add: sample_platform_def bare_url_def untitled_url_def root_url_def gone_url_def)

lemma validate_untitled:
  "validateScrapedData iso_timestamp untitled_record
     = \<lparr>isValid = False, errors = [''Missing or invalid title'']\<rparr>"
  by (simp add: validateScrapedData_def untitled_record_def page_record_def untitled_url_def
        sample_time_def iso_timestamp_def is_digit_def startsWith_def Let_def)

lemma validate_root:
  "validateScrapedData iso_timestamp root_record
     = \<lparr>isValid = False, errors = [''Missing or invalid id'']\<rparr>"
  by (simp add: validateScrapedData_def root_record_def page_record_def root_url_def
        sample_time_def iso_timestamp_def is_digit_def startsWith_def Let_def)

lemma outcomes_Nil: "outcomes w i [] = []"
  by (simp add: outcomes_def)

lemma outcomes_length: "length (outcomes w i urls) = length urls"
  by (simp add: outcomes_def)

lemma assembled_failed_length: "length (assembled os) + length (failed os) = length os"
  by (induction os) (auto simp: assembled_def failed_def split: sum.splits)

lemma outcomes_nth:
  "k < length urls \<Longrightarrow>
   outcomes w i urls ! k = (urls ! k, i + k, parseInefficiencyDetail w (clock w (i + k)) (urls ! k))"
  by (simp add: outcomes_def)

lemma failed_member:
  "(url, k, Inl m) \<in> set os \<Longrightarrow>
   \<lparr>err_url = url, err_error = m, err_index = k + 1\<rparr> \<in> set (failed os)"
  by (force simp: failed_def)

lemma parse_timeout:
  "fetch w url = Aborted \<Longrightarrow>
   parseInefficiencyDetail w now url = Inl (''Fetch timeout after 8000ms: '' @ url)"
  by (simp add: parseInefficiencyDetail_def fetchDocument_def show_timeout)

lemma parse_http_error:
  "fetch w url = Response status statusText doc \<Longrightarrow> \<not> (200 \<le> status \<and> status \<le> 299) \<Longrightarrow>
   parseInefficiencyDetail w now url
     = Inl (''Failed to fetch '' @ url @ '': HTTP '' @ show_nat status @ '' '' @ statusText)"
proof -
  assume "fetch w url = Response status statusText doc"
    and "\<not> (200 \<le> status \<and> status \<le> 299)"
  then have "fetchDocument w url
      = Inl (''Failed to fetch '' @ url @ '': HTTP '' @ show_nat status @ '' '' @ statusText)"
    by (auto simp: fetchDocument_def)
  then show ?thesis by (simp add: parseInefficiencyDetail_def)
qed

lemma three_urls_second_times_out:
  assumes "parseInefficiencyDetail w (clock w 0) u1 = Inr r1"
    and "fetch w u2 = Aborted"
    and "parseInefficiencyDetail w (clock w 2) u3 = Inr r3"
  shows "results (process_batch w [u1, u2, u3]) = [r1, r3]"
    and "failures (process_batch w [u1, u2, u3])
           = [\<lparr>err_url = u2, err_error = ''Fetch timeout after 8000ms: '' @ u2, err_index = 2\<rparr>]"
proof -
  have p2: "parseInefficiencyDetail w (clock w 1) u2 = Inl (''Fetch timeout after 8000ms: '' @ u2)"
    using assms(2) by (rule parse_timeout)
  have o: "outcomes w 0 [u1, u2, u3]
             = [(u1, 0, Inr r1), (u2, 1, Inl (''Fetch timeout after 8000ms: '' @ u2)), (u3, 2, Inr r3)]"
    using assms(1,3) p2 by (simp add: outcomes_Cons outcomes_Nil numeral_2_eq_2)
  show "results (process_batch w [u1, u2, u3]) = [r1, r3]"
    by (simp add: process_batch_outcomes o assembled_def)
  show "failures (process_batch w [u1, u2, u3])
           = [\<lparr>err_url = u2, err_error = ''Fetch timeout after 8000ms: '' @ u2, err_index = 2\<rparr>]"
    by (simp add: process_batch_outcomes o failed_def)
qed

text \<open>
  C1. Batch processing has partial-failure semantics. For every ordered batch of URLs the
  loop meets every URL: the results are the records of the URLs that were assembled, the
  error list holds, for every URL whose assembly threw, its URL, the message and its
  1-based index, and the two together are as many as the URLs. A fetch that times out and
  a response with a status outside 200..299 throw, with the messages shown. In
  particular, for three URLs of which the second times out and the others are assembled,
  there are two results and one error, and the error's URL is the second URL.
\<close>

theorem batch_partial_failure:
  "results (process_batch w urls) = assembled (outcomes w 0 urls)
   \<and> failures (process_batch w urls) = failed (outcomes w 0 urls)
   \<and> length (results (process_batch w urls)) + length (failures (process_batch w urls))
       = length urls
   \<and> (\<forall>k<length urls. \<forall>m. parseInefficiencyDetail w (clock w k) (urls ! k) = Inl m
         \<longrightarrow> \<lparr>err_url = urls ! k, err_error = m, err_index = k + 1\<rparr>
               \<in> set (failures (process_batch w urls)))
   \<and> (\<forall>url now. fetch w url = Aborted
         \<longrightarrow> parseInefficiencyDetail w now url = Inl (''Fetch timeout after 8000ms: '' @ url))
   \<and> (\<forall>url now status statusText doc.
         fetch w url = Response status statusText doc \<and> \<not> (200 \<le> status \<and> status \<le> 299)
         \<longrightarrow> parseInefficiencyDetail w now url
               = Inl (''Failed to fetch '' @ url @ '': HTTP '' @ show_nat status @ '' ''
                      @ statusText))
   \<and> (\<forall>u1 u2 u3 r1 r3.
         urls = [u1, u2, u3] \<and> parseInefficiencyDetail w (clock w 0) u1 = Inr r1
         \<and> fetch w u2 = Aborted \<and> parseInefficiencyDetail w (clock w 2) u3 = Inr r3
         \<longrightarrow> results (process_batch w urls) = [r1, r3]
             \<and> length (results (process_batch w urls)) = 2
             \<and> length (failures (process_batch w urls)) = 1
             \<and> err_url (failures (process_batch w urls) ! 0) = u2
             \<and> err_error (failures (process_batch w urls) ! 0)
                 = ''Fetch timeout after 8000ms: '' @ u2)"
proof (intro conjI allI impI)
  show "results (process_batch w urls) = assembled (outcomes w 0 urls)"
    by (simp add: process_batch_outcomes)
  show "failures (process_batch w urls) = failed (outcomes w 0 urls)"
    by (simp add: process_batch_outcomes)
  show "length (results (process_batch w urls)) + length (failures (process_batch w urls))
          = length urls"
    by (simp add: process_batch_outcomes assembled_failed_length outcomes_length)
  show "\<lparr>err_url = urls ! k, err_error = m, err_index = k + 1\<rparr>
          \<in> set (failures (process_batch w urls))"
    if "k < length urls" and "parseInefficiencyDetail w (clock w k) (urls ! k) = Inl m" for k m
  proof -
    have "outcomes w 0 urls ! k = (urls ! k, k, Inl m)"
      using that by (simp add: outcomes_nth)
    then have "(urls ! k, k, Inl m) \<in> set (outcomes w 0 urls)"
      using that(1) by (metis nth_mem outcomes_length)
    then show ?thesis
      using failed_member [of "urls ! k" k m "outcomes w 0 urls"]
      by (simp add: process_batch_outcomes)
  qed
  show "parseInefficiencyDetail w now url = Inl (''Fetch timeout after 8000ms: '' @ url)"
    if "fetch w url = Aborted" for url now
    using that by (rule parse_timeout)
  show "parseInefficiencyDetail w now url
          = Inl (''Failed to fetch '' @ url @ '': HTTP '' @ show_nat status @ '' '' @ statusText)"
    if "fetch w url = Response status statusText doc \<and> \<not> (200 \<le> status \<and> status \<le> 299)"
    for url now status statusText doc
    using that parse_http_error by blast
next
  fix u1 u2 u3 r1 r3
  assume a: "urls = [u1, u2, u3] \<and> parseInefficiencyDetail w (clock w 0) u1 = Inr r1
         \<and> fetch w u2 = Aborted \<and> parseInefficiencyDetail w (clock w 2) u3 = Inr r3"
  then have r: "results (process_batch w urls) = [r1, r3]"
    and f: "failures (process_batch w urls)
           = [\<lparr>err_url = u2, err_error = ''Fetch timeout after 8000ms: '' @ u2, err_index = 2\<rparr>]"
    using three_urls_second_times_out by blast+
  show "results (process_batch w urls) = [r1, r3]" by (rule r)
  show "length (results (process_batch w urls)) = 2" by (simp add: r)
  show "length (failures (process_batch w urls)) = 1" by (simp add: f)
  show "err_url (failures (process_batch w urls) ! 0) = u2" by (simp add: f)
  show "err_error (failures (process_batch w urls) ! 0) = ''Fetch timeout after 8000ms: '' @ u2"
    by (simp add: f)
qed

lemma sample_clock: "clock sample_platform i = sample_time"
  by (simp add: sample_platform_def)

theorem batch_partial_failure_witness:
  "parseInefficiencyDetail sample_platform (clock sample_platform 0) bare_url = Inr bare_record
   \<and> fetch sample_platform slow_url = Aborted
   \<and> parseInefficiencyDetail sample_platform (clock sample_platform 2) untitled_url
       = Inr untitled_record
   \<and> results (process_batch sample_platform [bare_url, slow_url, untitled_url])
       = [bare_record, untitled_record]
   \<and> length (results (process_batch sample_platform [bare_url, slow_url, untitled_url])) = 2
   \<and> length (failures (process_batch sample_platform [bare_url, slow_url, untitled_url])) = 1
   \<and> err_url (failures (process_batch sample_platform [bare_url, slow_url, untitled_url]) ! 0)
       = slow_url"
proof -
  have h: "[bare_url, slow_url, untitled_url] = [bare_url, slow_url, untitled_url]
      \<and> parseInefficiencyDetail sample_platform (clock sample_platform 0) bare_url = Inr bare_record
      \<and> fetch sample_platform slow_url = Aborted
      \<and> parseInefficiencyDetail sample_platform (clock sample_platform 2) untitled_url
          = Inr untitled_record"
    by (simp add: sample_clock parse_bare parse_untitled fetch_slow)
  from batch_partial_failure [of sample_platform "[bare_url, slow_url, untitled_url]"]
  have "\<forall>u1 u2 u3 r1 r3.
         [bare_url, slow_url, untitled_url] = [u1, u2, u3]
         \<and> parseInefficiencyDetail sample_platform (clock sample_platform 0) u1 = Inr r1
         \<and> fetch sample_platform u2 = Aborted
         \<and> parseInefficiencyDetail sample_platform (clock sample_platform 2) u3 = Inr r3
         \<longrightarrow> results (process_batch sample_platform [bare_url, slow_url, untitled_url]) = [r1, r3]
             \<and> length (results (process_batch sample_platform [bare_url, slow_url, untitled_url])) = 2
             \<and> length (failures (process_batch sample_platform [bare_url, slow_url, untitled_url])) = 1
             \<and> err_url (failures (process_batch sample_platform [bare_url, slow_url, untitled_url]) ! 0) = u2
             \<and> err_error (failures (process_batch sample_platform [bare_url, slow_url, untitled_url]) ! 0)
                 = ''Fetch timeout after 8000ms: '' @ u2"
    by blast
  with h have "results (process_batch sample_platform [bare_url, slow_url, untitled_url])
                 = [bare_record, untitled_record]
             \<and> length (results (process_batch sample_platform [bare_url, slow_url, untitled_url])) = 2
             \<and> length (failures (process_batch sample_platform [bare_url, slow_url, untitled_url])) = 1
             \<and> err_url (failures (process_batch sample_platform [bare_url, slow_url, untitled_url]) ! 0) = slow_url"
    by blast
  with h show ?thesis by blast
qed


lemma handler_single:
  assumes "url \<noteq> []" and "parseInefficiencyDetail w (clock w 0) url = Inr rcd"
  shows "handler w \<lparr>urlParam = Some url, limitParam = lp\<rparr> =
           (Detail rcd,
            if isValid (validateScrapedData (Date_parse w) rcd) then []
            else [\<lparr>warn_url = url,
                   warn_errors = errors (validateScrapedData (Date_parse w) rcd)\<rparr>])"
  using assms by (simp add: handler_def Let_def)

lemma assembled_member: "(url, k, Inr rcd) \<in> set os \<Longrightarrow> rcd \<in> set (assembled os)"
  by (force simp: assembled_def)

lemma warned_member:
  "(url, k, Inr rcd) \<in> set os \<Longrightarrow> \<not> isValid (validateScrapedData date_ok rcd) \<Longrightarrow>
   \<lparr>warn_url = url, warn_errors = errors (validateScrapedData date_ok rcd)\<rparr>
     \<in> set (warned date_ok os)"
  by (force simp: warned_def)

section \<open>Invalid records are flagged and returned\<close>

text \<open>
  What the validator tests, and what becomes of its verdict. It reports a record exactly
  when the id or the title is missing, a URL that is present does not begin with
  \<open>http\<close>, or the timestamp is empty or does not parse. The verdict only adds a
  warning to the log: the single-URL request answers with the record, and the batch keeps
  every assembled record in its results.
\<close>

lemma validator_flags_and_returns:
  "(\<not> isValid (validateScrapedData date_ok data)) = invalid_as_tested date_ok data
   \<and> isValid (validateScrapedData date_ok data)
       = (errors (validateScrapedData date_ok data) = [])
   \<and> (\<forall>url rcd. url \<noteq> [] \<and> parseInefficiencyDetail w (clock w 0) url = Inr rcd
         \<longrightarrow> handler w \<lparr>urlParam = Some url, limitParam = lp\<rparr> =
               (Detail rcd,
                if isValid (validateScrapedData (Date_parse w) rcd) then []
                else [\<lparr>warn_url = url,
                       warn_errors = errors (validateScrapedData (Date_parse w) rcd)\<rparr>]))
   \<and> results (process_batch w urls) = assembled (outcomes w 0 urls)
   \<and> warnings (process_batch w urls) = warned (Date_parse w) (outcomes w 0 urls)
   \<and> (\<forall>k<length urls. \<forall>rcd. parseInefficiencyDetail w (clock w k) (urls ! k) = Inr rcd
         \<longrightarrow> rcd \<in> set (results (process_batch w urls))
             \<and> (\<not> isValid (validateScrapedData (Date_parse w) rcd)
                  \<longrightarrow> \<lparr>warn_url = urls ! k,
                        warn_errors = errors (validateScrapedData (Date_parse w) rcd)\<rparr>
                       \<in> set (warnings (process_batch w urls))))"
proof (intro conjI allI impI)
  show "(\<not> isValid (validateScrapedData date_ok data)) = invalid_as_tested date_ok data"
    by (rule validator_tested)
  show "isValid (validateScrapedData date_ok data)
          = (errors (validateScrapedData date_ok data) = [])"
    by (rule validator_errors)
  show "handler w \<lparr>urlParam = Some url, limitParam = lp\<rparr> =
               (Detail rcd,
                if isValid (validateScrapedData (Date_parse w) rcd) then []
                else [\<lparr>warn_url = url,
                       warn_errors = errors (validateScrapedData (Date_parse w) rcd)\<rparr>])"
    if "url \<noteq> [] \<and> parseInefficiencyDetail w (clock w 0) url = Inr rcd" for url rcd
    using that handler_single by blast
  show "results (process_batch w urls) = assembled (outcomes w 0 urls)"
    by (simp add: process_batch_outcomes)
  show "warnings (process_batch w urls) = warned (Date_parse w) (outcomes w 0 urls)"
    by (simp add: process_batch_outcomes)
next
  fix k rcd
  assume k: "k < length urls"
    and p: "parseInefficiencyDetail w (clock w k) (urls ! k) = Inr rcd"
  have "outcomes w 0 urls ! k = (urls ! k, k, Inr rcd)"
    using k p by (simp add: outcomes_nth)
  then have m: "(urls ! k, k, Inr rcd) \<in> set (outcomes w 0 urls)"
    using k by (metis nth_mem outcomes_length)
  then show "rcd \<in> set (results (process_batch w urls))"
    by (simp add: process_batch_outcomes assembled_member)
  show "\<lparr>warn_url = urls ! k,
          warn_errors = errors (validateScrapedData (Date_parse w) rcd)\<rparr>
          \<in> set (warnings (process_batch w urls))"
    if "\<not> isValid (validateScrapedData (Date_parse w) rcd)"
    using m that by (simp add: process_batch_outcomes warned_member)
qed

lemma untitled_url_nonempty: "untitled_url \<noteq> []"
  by (simp add: untitled_url_def)

lemma sample_date: "Date_parse sample_platform = iso_timestamp"
  by (simp add: sample_platform_def)

lemma validator_flags_and_returns_example:
  "untitled_url \<noteq> []
   \<and> parseInefficiencyDetail sample_platform (clock sample_platform 0) untitled_url
       = Inr untitled_record
   \<and> invalid_as_tested iso_timestamp untitled_record
   \<and> handler sample_platform \<lparr>urlParam = Some untitled_url, limitParam = None\<rparr>
       = (Detail untitled_record,
          [\<lparr>warn_url = untitled_url, warn_errors = [''Missing or invalid title'']\<rparr>])"
proof -
  note t = validator_flags_and_returns
             [of iso_timestamp untitled_record sample_platform None "[]"]
  have h: "untitled_url \<noteq> []
      \<and> parseInefficiencyDetail sample_platform (clock sample_platform 0) untitled_url
          = Inr untitled_record"
    by (simp add: untitled_url_nonempty sample_clock parse_untitled)
  from t have "(\<not> isValid (validateScrapedData iso_timestamp untitled_record))
                 = invalid_as_tested iso_timestamp untitled_record"
    by blast
  then have i: "invalid_as_tested iso_timestamp untitled_record"
    by (simp add: validate_untitled)
  from t have "\<forall>url rcd. url \<noteq> []
         \<and> parseInefficiencyDetail sample_platform (clock sample_platform 0) url = Inr rcd
         \<longrightarrow> handler sample_platform \<lparr>urlParam = Some url, limitParam = None\<rparr> =
               (Detail rcd,
                if isValid (validateScrapedData (Date_parse sample_platform) rcd) then []
                else [\<lparr>warn_url = url,
                       warn_errors
                         = errors (validateScrapedData (Date_parse sample_platform) rcd)\<rparr>])"
    by blast
  with h have "handler sample_platform \<lparr>urlParam = Some untitled_url, limitParam = None\<rparr> =
               (Detail untitled_record,
                if isValid (validateScrapedData (Date_parse sample_platform) untitled_record)
                then []
                else [\<lparr>warn_url = untitled_url,
                       warn_errors = errors (validateScrapedData (Date_parse sample_platform)
                                                untitled_record)\<rparr>])"
    by blast
  then have "handler sample_platform \<lparr>urlParam = Some untitled_url, limitParam = None\<rparr>
       = (Detail untitled_record,
          [\<lparr>warn_url = untitled_url, warn_errors = [''Missing or invalid title'']\<rparr>])"
    by (simp add: sample_date validate_untitled)
  with h i show ?thesis by blast
qed

lemma parse_guide:
  "parseInefficiencyDetail guide_platform sample_time guide_url = Inr guide_record"
  by (simp add: parseInefficiencyDetail_def fetchDocument_def guide_platform_def guide_url_def
        guide_body_def guide_record_def mapToSchema_def Let_def
        extractDocumentationLinks_def text_nodes_def textValue_def trim_def is_space_def
        findFieldValue_def extractSectionParagraph_def extractSectionList_def
        anchors_with_href_def full_url_def
        SECTION_TITLES_def slugFromUrl_def plain_pathname_def startsWith_def
        strip_trailing_slashes_def)

lemma validate_guide:
  "validateScrapedData iso_timestamp guide_record = \<lparr>isValid = True, errors = []\<rparr>"
  by (simp add: validateScrapedData_def guide_record_def guide_url_def
        sample_time_def iso_timestamp_def is_digit_def startsWith_def Let_def)

lemma handle_guide:
  "handler guide_platform \<lparr>urlParam = Some guide_url, limitParam = None\<rparr>
     = (Detail guide_record, [])"
proof -
  have n: "guide_url \<noteq> []" by (simp add: guide_url_def)
  have c: "clock guide_platform 0 = sample_time"
    by (simp add: guide_platform_def)
  have p: "parseInefficiencyDetail guide_platform (clock guide_platform 0) guide_url
             = Inr guide_record"
    by (simp only: c parse_guide)
  have d: "Date_parse guide_platform = iso_timestamp"
    by (simp add: guide_platform_def)
  have "handler guide_platform \<lparr>urlParam = Some guide_url, limitParam = None\<rparr> =
           (Detail guide_record,
            if isValid (validateScrapedData (Date_parse guide_platform) guide_record) then []
            else [\<lparr>warn_url = guide_url,
                   warn_errors
                     = errors (validateScrapedData (Date_parse guide_platform) guide_record)\<rparr>])"
    using n p by (rule handler_single)
  then show ?thesis by (simp only: d validate_guide validation.simps if_True)
qed

text \<open>
  C8 fails on the code for a record with a documentation link whose URL is not absolute
  but begins with \<open>http\<close>. The page of the example links to \<open>http-guide.html\<close>; the
  assembler keeps that reference as the link's URL, and the validator, which takes every
  URL that begins with \<open>http\<close> for an absolute one, passes the record: the request is
  answered with the record and no warning is logged.
\<close>

theorem validator_passes_relative_link:
  "parseInefficiencyDetail guide_platform sample_time guide_url = Inr guide_record
   \<and> documentation_links guide_record
       = [\<lparr>link_title = Some ''Guide'', link_url = ''http-guide.html''\<rparr>]
   \<and> \<not> is_absolute_url ''http-guide.html''
   \<and> validateScrapedData iso_timestamp guide_record = \<lparr>isValid = True, errors = []\<rparr>
   \<and> handler guide_platform \<lparr>urlParam = Some guide_url, limitParam = None\<rparr>
       = (Detail guide_record, [])"
  by (simp add: parse_guide validate_guide handle_guide http_guide_not_absolute)
     (simp add: guide_record_def)

section \<open>The id of an assembled record\<close>

lemma assembled_fields:
  assumes "parseInefficiencyDetail w now url = Inr r"
  shows "id' r = Some (slugFromUrl (URL_pathname w) url)"
    and "tags r = []"
    and "source r = \<lparr>source_url = Some url, source_origin = ''pointfive_cloud_efficiency_hub''\<rparr>"
    and "scraped_at r = now"
  using assms
  by (auto simp: parseInefficiencyDetail_def mapToSchema_def Let_def split: sum.splits)

text \<open>
  C9 fails on the code for a URL whose path has no segment: for the root URL of the site
  the assembler returns a record whose id is the empty string, which the validator of the
  same file reports as a missing or invalid id.
\<close>

theorem root_url_empty_id:
  "parseInefficiencyDetail sample_platform sample_time root_url = Inr root_record
   \<and> id' root_record = Some []
   \<and> validateScrapedData iso_timestamp root_record
       = \<lparr>isValid = False, errors = [''Missing or invalid id'']\<rparr>"
  by (simp add: parse_root validate_root) (simp add: root_record_def page_record_def)

section \<open>Discovery reads at most thirty index pages\<close>

lemma Set_add_set: "set (Set_add x s) = insert x (set s)"
  by (auto simp: Set_add_def)

lemma Set_add_distinct: "distinct s \<Longrightarrow> distinct (Set_add x s)"
  by (auto simp: Set_add_def)

lemma foldl_Set_add_set: "set (foldl (\<lambda>s u. Set_add u s) S ls) = set S \<union> set ls"
  by (induction ls arbitrary: S) (auto simp: Set_add_set)

lemma foldl_Set_add_distinct: "distinct S \<Longrightarrow> distinct (foldl (\<lambda>s u. Set_add u s) S ls)"
  by (induction ls arbitrary: S) (auto simp: Set_add_distinct)

lemma add_page_links_those:
  "those (map (full_url resolve) (detail_hrefs_of as)) = Some ls \<Longrightarrow>
   add_page_links resolve as S found = (foldl (\<lambda>s u. Set_add u s) S ls, Some (found + length ls))"
proof (induction as arbitrary: S found ls)
  case Nil
  then show ?case by (simp add: detail_hrefs_of_def)
next
  case (Cons a as)
  show ?case
  proof (cases "getAttribute ''href'' a")
    case None
    then show ?thesis using Cons by (simp add: detail_hrefs_of_def)
  next
    case (Some h)
    show ?thesis
    proof (cases "h \<noteq> [] \<and> includes_str ''/inefficiencies/'' h")
      case False
      then show ?thesis using Some Cons by (auto simp: detail_hrefs_of_def)
    next
      case True
      then have d: "detail_hrefs_of (a # as) = h # detail_hrefs_of as"
        using Some by (simp add: detail_hrefs_of_def)
      with Cons.prems obtain u ls' where u: "full_url resolve h = Some u"
        and ls': "those (map (full_url resolve) (detail_hrefs_of as)) = Some ls'"
        and ls: "ls = u # ls'"
        by (auto split: option.splits)
      show ?thesis using True Some u ls Cons.IH [OF ls'] by simp
    qed
  qed
qed

lemma page_step:
  assumes "page_links w p = Some ls"
  shows "\<exists>document. fetchDocument w (indexUrl p) = Inr document
           \<and> add_page_links (URL_resolve w) (anchors_with_href document) S 0
               = (foldl (\<lambda>s u. Set_add u s) S ls, Some (length ls))"
proof -
  from assms obtain document where f: "fetchDocument w (indexUrl p) = Inr document"
    and t: "those (map (full_url (URL_resolve w)) (detail_hrefs document)) = Some ls"
    by (auto simp: page_links_def split: sum.splits)
  from t have "add_page_links (URL_resolve w) (anchors_with_href document) S 0
               = (foldl (\<lambda>s u. Set_add u s) S ls, Some (0 + length ls))"
    unfolding detail_hrefs_def by (rule add_page_links_those)
  with f show ?thesis by simp
qed

lemma discover_inv:
  assumes pages: "\<And>p. 1 \<le> p \<Longrightarrow> p \<le> N \<Longrightarrow> p \<le> MAX_PAGES
                     \<Longrightarrow> page_links w p = Some (links p) \<and> links p \<noteq> []"
    and stop: "N < MAX_PAGES \<Longrightarrow> page_links w (Suc N) = Some []"
  shows "1 \<le> page \<Longrightarrow> page \<le> Suc N \<Longrightarrow> distinct S \<Longrightarrow>
         distinct (discover_loop w page S)
         \<and> set (discover_loop w page S)
             = set S \<union> (\<Union>p\<in>{page..min N MAX_PAGES}. set (links p))"
proof (induction "Suc MAX_PAGES - page" arbitrary: page S)
  case 0
  then have "\<not> page \<le> MAX_PAGES" by simp
  then show ?case using 0 by (simp add: discover_loop.simps)
next
  case (Suc n)
  then have le: "page \<le> MAX_PAGES" by simp
  show ?case
  proof (cases "page \<le> N")
    case True
    then have pl: "page_links w page = Some (links page)" and ne: "links page \<noteq> []"
      using pages Suc.prems(1) le by blast+
    let ?S = "foldl (\<lambda>s u. Set_add u s) S (links page)"
    obtain document where f: "fetchDocument w (indexUrl page) = Inr document"
      and a: "add_page_links (URL_resolve w) (anchors_with_href document) S 0
                = (?S, Some (length (links page)))"
      using page_step [OF pl] by blast
    have step: "discover_loop w page S = discover_loop w (Suc page) ?S"
      using le f a ne by (subst discover_loop.simps) simp
    have n: "n = Suc MAX_PAGES - Suc page" using Suc.hyps(2) by simp
    have ih: "distinct (discover_loop w (Suc page) ?S)
         \<and> set (discover_loop w (Suc page) ?S)
             = set ?S \<union> (\<Union>p\<in>{Suc page..min N MAX_PAGES}. set (links p))"
      using Suc.hyps(1) [OF n] True Suc.prems(3) by (simp add: foldl_Set_add_distinct)
    have "{page..min N MAX_PAGES} = insert page {Suc page..min N MAX_PAGES}"
      using True le by auto
    then show ?thesis using step ih by (auto simp: foldl_Set_add_set)
  next
    case False
    then have pN: "page = Suc N" using Suc.prems(2) by simp
    then have "N < MAX_PAGES" using le by simp
    then have pl: "page_links w page = Some []" using stop pN by simp
    obtain document where f: "fetchDocument w (indexUrl page) = Inr document"
      and a: "add_page_links (URL_resolve w) (anchors_with_href document) S 0
                = (foldl (\<lambda>s u. Set_add u s) S [], Some (length ([]::string list)))"
      using page_step [OF pl] by blast
    have "discover_loop w page S = S"
      using le f a by (subst discover_loop.simps) simp
    moreover have "{page..min N MAX_PAGES} = {}" using pN by simp
    ultimately show ?thesis using Suc.prems(3) by simp
  qed
qed

lemma sort_distinct_set:
  "distinct (xs :: string list) \<Longrightarrow> sort xs = sorted_list_of_set (set xs)"
  by (simp add: sorted_list_of_set_sort_remdups distinct_remdups_id)

lemma discovery_general:
  assumes "\<forall>p\<in>{1..min N MAX_PAGES}. page_links w p = Some (links p) \<and> links p \<noteq> []"
    and "N < MAX_PAGES \<longrightarrow> page_links w (Suc N) = Some []"
  shows "extractInefficiencyUrls w None
           = sorted_list_of_set (\<Union>p\<in>{1..min N MAX_PAGES}. set (links p))"
proof -
  have "distinct (discover_loop w 1 [])
         \<and> set (discover_loop w 1 [])
             = set [] \<union> (\<Union>p\<in>{1..min N MAX_PAGES}. set (links p))"
    using assms by (intro discover_inv) auto
  then show ?thesis
    by (simp add: extractInefficiencyUrls_def sort_distinct_set)
qed


lemma two_page_1: "page_links two_page_hub 1 = Some (two_page_links 1)"
  by (simp add: page_links_def fetchDocument_def indexUrl_def BASE_URL_def two_page_hub_def
        hub_page_1_def detail_hrefs_def detail_hrefs_of_def anchors_with_href_def
        startsWith_def full_url_def plain_resolve_def two_page_links_def)

lemma show_2: "show_nat 2 = ''2''" and show_3: "show_nat 3 = ''3''"
  by (simp_all add: show_nat.simps digit_def)

lemma two_page_2: "page_links two_page_hub 2 = Some (two_page_links 2)"
  by (simp add: page_links_def fetchDocument_def indexUrl_def BASE_URL_def two_page_hub_def
        hub_page_2_def detail_hrefs_def detail_hrefs_of_def anchors_with_href_def show_2
        startsWith_def full_url_def plain_resolve_def two_page_links_def)

lemma two_page_3: "page_links two_page_hub 3 = Some []"
  by (simp add: page_links_def fetchDocument_def indexUrl_def BASE_URL_def two_page_hub_def
        detail_hrefs_def detail_hrefs_of_def anchors_with_href_def show_3)


lemma digit_value: "d < 10 \<Longrightarrow> int (of_char (digit d)) - 48 = int d"
proof -
  assume "d < 10"
  then have "d = 0 \<or> d = 1 \<or> d = 2 \<or> d = 3 \<or> d = 4 \<or> d = 5 \<or> d = 6 \<or> d = 7 \<or> d = 8 \<or> d = 9"
    by arith
  then show ?thesis by (auto simp: digit_def)
qed

lemma digits_value_snoc:
  "digits_value (z @ [c]) = digits_value z * 10 + (int (of_char c) - 48)"
  by (simp add: digits_value_def)

lemma digits_value_show: "digits_value (show_nat n) = int n"
proof (induction n rule: show_nat.induct)
  case (1 n)
  show ?case
  proof (cases "n < 10")
    case True
    then show ?thesis
      by (subst show_nat.simps) (simp add: digits_value_def digit_value)
  next
    case False
    then have "digits_value (show_nat n)
                 = digits_value (show_nat (n div 10)) * 10 + (int (of_char (digit (n mod 10))) - 48)"
      by (subst show_nat.simps) (simp add: digits_value_snoc)
    also have "\<dots> = int (n div 10) * 10 + int (n mod 10)"
      using 1 False by (simp add: digit_value)
    also have "\<dots> = int n" by (simp add: zdiv_int zmod_int)
    finally show ?thesis .
  qed
qed

lemma show_nat_inj: "show_nat m = show_nat n \<Longrightarrow> m = n"
  by (metis digits_value_show of_nat_eq_iff)

lemma indexUrl_inj: "indexUrl p = indexUrl q \<Longrightarrow> p = q"
  by (auto simp: indexUrl_def BASE_URL_def show_nat_inj split: if_splits)


lemma early_links:
  "those (map (full_url plain_resolve) (detail_hrefs early_page))
     = Some [''https://hub.pointfive.co/hub/inefficiencies/early'']"
  by (simp add: early_page_def detail_hrefs_def detail_hrefs_of_def anchors_with_href_def
        startsWith_def full_url_def plain_resolve_def BASE_URL_def)

lemma late_links:
  "those (map (full_url plain_resolve) (detail_hrefs late_page))
     = Some [''https://hub.pointfive.co/hub/inefficiencies/late'']"
  by (simp add: late_page_def detail_hrefs_def detail_hrefs_of_def anchors_with_href_def
        startsWith_def full_url_def plain_resolve_def BASE_URL_def)

lemma no_links:
  "those (map (full_url plain_resolve) (detail_hrefs (Element ''body'' [] []))) = Some []"
  by (simp add: detail_hrefs_def detail_hrefs_of_def anchors_with_href_def)

lemma indexUrl_eq: "(indexUrl p = indexUrl q) = (p = q)"
  using indexUrl_inj by blast

lemma long_hub_page: "page_links long_hub p = Some (long_hub_links p)"
  by (simp add: page_links_def fetchDocument_def long_hub_def indexUrl_eq long_hub_links_def
        early_links late_links no_links)

lemma map_all_equal: "\<forall>x\<in>set xs. f x = c \<Longrightarrow> map f xs = replicate (length xs) c"
  by (induction xs) auto

lemma long_hub_pages:
  "map (page_links long_hub) [1..<32]
     = replicate 30 (Some [''https://hub.pointfive.co/hub/inefficiencies/early''])
       @ [Some [''https://hub.pointfive.co/hub/inefficiencies/late'']]"
proof -
  have "[1..<Suc 31] = [1..<31] @ [31::nat]" by (rule upt_Suc_append) simp
  moreover have "Suc 31 = 32" by simp
  ultimately have u: "[1..<32] = [1..<31] @ [31::nat]" by (simp only:)
  have "\<forall>p\<in>set [1..<31].
          page_links long_hub p = Some [''https://hub.pointfive.co/hub/inefficiencies/early'']"
    by (auto simp: long_hub_page long_hub_links_def)
  then have "map (page_links long_hub) [1..<31]
      = replicate (length [1..<(31::nat)])
          (Some [''https://hub.pointfive.co/hub/inefficiencies/early''])"
    by (rule map_all_equal)
  moreover have "length [1..<(31::nat)] = 30" by simp
  ultimately have e: "map (page_links long_hub) [1..<31]
      = replicate 30 (Some [''https://hub.pointfive.co/hub/inefficiencies/early''])"
    by (simp only:)
  have l: "page_links long_hub 31 = Some [''https://hub.pointfive.co/hub/inefficiencies/late'']"
    by (simp add: long_hub_page long_hub_links_def)
  show ?thesis
    by (simp only: u map_append e list.map l)
qed

lemma long_hub_discovered:
  "extractInefficiencyUrls long_hub None = [''https://hub.pointfive.co/hub/inefficiencies/early'']"
proof -
  have "extractInefficiencyUrls long_hub None
          = sorted_list_of_set (\<Union>p\<in>{1..min 31 MAX_PAGES}. set (long_hub_links p))"
    by (rule discovery_general) (auto simp: long_hub_page long_hub_links_def MAX_PAGES_def)
  moreover have "(\<Union>p\<in>{1..min 31 MAX_PAGES}. set (long_hub_links p))
          = {''https://hub.pointfive.co/hub/inefficiencies/early''}"
    by (auto simp: long_hub_links_def MAX_PAGES_def)
  ultimately show ?thesis by simp
qed


lemma two_page_hypotheses:
  "(\<forall>p\<in>{1..min 2 MAX_PAGES}. page_links two_page_hub p = Some (two_page_links p)
        \<and> two_page_links p \<noteq> [])
   \<and> (2 < MAX_PAGES \<longrightarrow> page_links two_page_hub (Suc 2) = Some [])"
proof -
  have "{1..min 2 MAX_PAGES} = {1, 2}" by (auto simp: MAX_PAGES_def)
  moreover have "Suc 2 = 3" by simp
  ultimately show ?thesis
    using two_page_1 two_page_2 two_page_3 by (auto simp: two_page_links_def)
qed

lemma two_page_union:
  "sorted_list_of_set (\<Union>p\<in>{1..min 2 MAX_PAGES}. set (two_page_links p))
     = [''https://hub.pointfive.co/hub/inefficiencies/a'',
        ''https://hub.pointfive.co/hub/inefficiencies/b'',
        ''https://hub.pointfive.co/hub/inefficiencies/c'',
        ''https://hub.pointfive.co/hub/inefficiencies/d'',
        ''https://hub.pointfive.co/hub/inefficiencies/e'',
        ''https://hub.pointfive.co/hub/inefficiencies/f'']"
proof -
  have "{1..min 2 MAX_PAGES} = {1, 2}" by (auto simp: MAX_PAGES_def)
  then have "(\<Union>p\<in>{1..min 2 MAX_PAGES}. set (two_page_links p))
               = set (two_page_links 1 @ two_page_links 2)"
    by simp
  then have "sorted_list_of_set (\<Union>p\<in>{1..min 2 MAX_PAGES}. set (two_page_links p))
               = sort (remdups (two_page_links 1 @ two_page_links 2))"
    by (simp only: sorted_list_of_set_sort_remdups)
  also have "\<dots> = [''https://hub.pointfive.co/hub/inefficiencies/a'',
        ''https://hub.pointfive.co/hub/inefficiencies/b'',
        ''https://hub.pointfive.co/hub/inefficiencies/c'',
        ''https://hub.pointfive.co/hub/inefficiencies/d'',
        ''https://hub.pointfive.co/hub/inefficiencies/e'',
        ''https://hub.pointfive.co/hub/inefficiencies/f'']"
    by (simp add: two_page_links_def)
  finally show ?thesis .
qed

lemma discovery_sorted_distinct:
  "sorted (extractInefficiencyUrls w None)"
  by (simp add: extractInefficiencyUrls_def)

text \<open>
  C2, as stated, fails for more than thirty index pages. On a hub whose pages 1 to 31 each
  have a link and whose page 32 has none, the link of page 31 is not discovered: the loop
  stops after \<open>MAX_PAGES\<close> pages.
\<close>

theorem discovery_page_cap_counterexample:
  "map (page_links long_hub) [1..<32]
     = replicate 30 (Some [''https://hub.pointfive.co/hub/inefficiencies/early''])
       @ [Some [''https://hub.pointfive.co/hub/inefficiencies/late'']]
   \<and> page_links long_hub 32 = Some []
   \<and> extractInefficiencyUrls long_hub None
       = [''https://hub.pointfive.co/hub/inefficiencies/early'']
   \<and> ''https://hub.pointfive.co/hub/inefficiencies/late''
       \<notin> set (extractInefficiencyUrls long_hub None)"
proof (intro conjI)
  show "map (page_links long_hub) [1..<32]
     = replicate 30 (Some [''https://hub.pointfive.co/hub/inefficiencies/early''])
       @ [Some [''https://hub.pointfive.co/hub/inefficiencies/late'']]"
    by (rule long_hub_pages)
  show "page_links long_hub 32 = Some []"
    by (simp add: long_hub_page long_hub_links_def)
  show "extractInefficiencyUrls long_hub None
       = [''https://hub.pointfive.co/hub/inefficiencies/early'']"
    by (rule long_hub_discovered)
  show "''https://hub.pointfive.co/hub/inefficiencies/late''
       \<notin> set (extractInefficiencyUrls long_hub None)"
    by (simp add: long_hub_discovered)
qed

text \<open>
  C2, amended. Given index pages 1..N each yielding a non-empty set of detail-page links
  and, when N is below the cap of thirty pages, page N+1 yielding none, the discovered
  URL sequence is the sorted, duplicate-free sequence of the union of the links of pages
  1..min(N, 30): of pages 1..N when N is at most thirty. It depends only on the sets of
  links of the pages, not on the order of the links within a page.
\<close>

theorem discovery_sorted_union:
  "(\<forall>p\<in>{1..min N MAX_PAGES}. page_links w p = Some (links p) \<and> links p \<noteq> [])
   \<and> (N < MAX_PAGES \<longrightarrow> page_links w (Suc N) = Some [])
   \<longrightarrow> MAX_PAGES = 30
       \<and> extractInefficiencyUrls w None
           = sorted_list_of_set (\<Union>p\<in>{1..min N MAX_PAGES}. set (links p))
       \<and> (N \<le> MAX_PAGES
            \<longrightarrow> extractInefficiencyUrls w None
                  = sorted_list_of_set (\<Union>p\<in>{1..N}. set (links p)))
       \<and> sorted (extractInefficiencyUrls w None)
       \<and> distinct (extractInefficiencyUrls w None)
       \<and> (\<forall>w' links'.
             (\<forall>p\<in>{1..min N MAX_PAGES}. page_links w' p = Some (links' p) \<and> links' p \<noteq> []
                  \<and> set (links' p) = set (links p))
             \<and> (N < MAX_PAGES \<longrightarrow> page_links w' (Suc N) = Some [])
             \<longrightarrow> extractInefficiencyUrls w' None = extractInefficiencyUrls w None)"
proof (intro impI)
  assume h: "(\<forall>p\<in>{1..min N MAX_PAGES}. page_links w p = Some (links p) \<and> links p \<noteq> [])
   \<and> (N < MAX_PAGES \<longrightarrow> page_links w (Suc N) = Some [])"
  then have eq: "extractInefficiencyUrls w None
           = sorted_list_of_set (\<Union>p\<in>{1..min N MAX_PAGES}. set (links p))"
    using discovery_general by blast
  have fin: "finite (\<Union>p\<in>{1..min N MAX_PAGES}. set (links p))" by simp
  have other: "extractInefficiencyUrls w' None = extractInefficiencyUrls w None"
    if h': "(\<forall>p\<in>{1..min N MAX_PAGES}. page_links w' p = Some (links' p) \<and> links' p \<noteq> []
                  \<and> set (links' p) = set (links p))
             \<and> (N < MAX_PAGES \<longrightarrow> page_links w' (Suc N) = Some [])" for w' links'
  proof -
    have "extractInefficiencyUrls w' None
           = sorted_list_of_set (\<Union>p\<in>{1..min N MAX_PAGES}. set (links' p))"
      using h' by (intro discovery_general) auto
    moreover have "(\<Union>p\<in>{1..min N MAX_PAGES}. set (links' p))
                     = (\<Union>p\<in>{1..min N MAX_PAGES}. set (links p))"
      using h' by auto
    ultimately show ?thesis using eq by simp
  qed
  show "MAX_PAGES = 30
       \<and> extractInefficiencyUrls w None
           = sorted_list_of_set (\<Union>p\<in>{1..min N MAX_PAGES}. set (links p))
       \<and> (N \<le> MAX_PAGES
            \<longrightarrow> extractInefficiencyUrls w None
                  = sorted_list_of_set (\<Union>p\<in>{1..N}. set (links p)))
       \<and> sorted (extractInefficiencyUrls w None)
       \<and> distinct (extractInefficiencyUrls w None)
       \<and> (\<forall>w' links'.
             (\<forall>p\<in>{1..min N MAX_PAGES}. page_links w' p = Some (links' p) \<and> links' p \<noteq> []
                  \<and> set (links' p) = set (links p))
             \<and> (N < MAX_PAGES \<longrightarrow> page_links w' (Suc N) = Some [])
             \<longrightarrow> extractInefficiencyUrls w' None = extractInefficiencyUrls w None)"
  proof (intro conjI allI impI)
    show "MAX_PAGES = 30" by (simp add: MAX_PAGES_def)
    show "extractInefficiencyUrls w None
           = sorted_list_of_set (\<Union>p\<in>{1..min N MAX_PAGES}. set (links p))"
      by (rule eq)
    show "extractInefficiencyUrls w None = sorted_list_of_set (\<Union>p\<in>{1..N}. set (links p))"
      if "N \<le> MAX_PAGES"
      using that eq by (simp add: min_absorb1)
    show "sorted (extractInefficiencyUrls w None)"
      by (rule discovery_sorted_distinct)
    show "distinct (extractInefficiencyUrls w None)"
      unfolding eq by simp
    show "extractInefficiencyUrls w' None = extractInefficiencyUrls w None"
      if "(\<forall>p\<in>{1..min N MAX_PAGES}. page_links w' p = Some (links' p) \<and> links' p \<noteq> []
                  \<and> set (links' p) = set (links p))
             \<and> (N < MAX_PAGES \<longrightarrow> page_links w' (Suc N) = Some [])" for w' links'
      using that by (rule other)
  qed
qed

theorem discovery_sorted_union_witness:
  "page_links two_page_hub 1 = Some (two_page_links 1)
   \<and> page_links two_page_hub 2 = Some (two_page_links 2)
   \<and> page_links two_page_hub 3 = Some []
   \<and> extractInefficiencyUrls two_page_hub None
       = [''https://hub.pointfive.co/hub/inefficiencies/a'',
          ''https://hub.pointfive.co/hub/inefficiencies/b'',
          ''https://hub.pointfive.co/hub/inefficiencies/c'',
          ''https://hub.pointfive.co/hub/inefficiencies/d'',
          ''https://hub.pointfive.co/hub/inefficiencies/e'',
          ''https://hub.pointfive.co/hub/inefficiencies/f'']"
proof -
  from discovery_sorted_union [of 2 two_page_hub two_page_links] two_page_hypotheses
  have "extractInefficiencyUrls two_page_hub None
           = sorted_list_of_set (\<Union>p\<in>{1..min 2 MAX_PAGES}. set (two_page_links p))"
    by blast
  then have "extractInefficiencyUrls two_page_hub None
       = [''https://hub.pointfive.co/hub/inefficiencies/a'',
          ''https://hub.pointfive.co/hub/inefficiencies/b'',
          ''https://hub.pointfive.co/hub/inefficiencies/c'',
          ''https://hub.pointfive.co/hub/inefficiencies/d'',
          ''https://hub.pointfive.co/hub/inefficiencies/e'',
          ''https://hub.pointfive.co/hub/inefficiencies/f'']"
    by (simp only: two_page_union)
  with two_page_1 two_page_2 two_page_3 show ?thesis by blast
qed

section \<open>Without a limit parameter the first five URLs are processed\<close>

lemma limit_five: "extractInefficiencyUrls w (Some 5) = take 5 (extractInefficiencyUrls w None)"
  by (simp add: extractInefficiencyUrls_def)

lemma handler_default:
  "handler w \<lparr>urlParam = None, limitParam = None\<rparr>
     = (Batch (take 5 (extractInefficiencyUrls w None))
          (results (process_batch w (take 5 (extractInefficiencyUrls w None))))
          (failures (process_batch w (take 5 (extractInefficiencyUrls w None)))),
        warnings (process_batch w (take 5 (extractInefficiencyUrls w None))))"
  by (simp add: handler_def limit_five Let_def)

lemma processed_count:
  "length (results (process_batch w urls)) + length (failures (process_batch w urls))
     = length urls"
  by (simp add: process_batch_outcomes assembled_failed_length outcomes_length)

text \<open>
  C10. A batch request without a limit parameter uses the limit 5: the handler processes
  the first five URLs of the sorted discovery output, and no more. The URLs it answers
  with are those five, and the results and errors together are at most five, exactly
  five when more than five URLs were discovered.
\<close>

theorem default_limit_is_five:
  "handler w \<lparr>urlParam = None, limitParam = None\<rparr>
     = (Batch (take 5 (extractInefficiencyUrls w None))
          (results (process_batch w (take 5 (extractInefficiencyUrls w None))))
          (failures (process_batch w (take 5 (extractInefficiencyUrls w None)))),
        warnings (process_batch w (take 5 (extractInefficiencyUrls w None))))
   \<and> extractInefficiencyUrls w (Some 5) = take 5 (extractInefficiencyUrls w None)
   \<and> sorted (extractInefficiencyUrls w None)
   \<and> length (take 5 (extractInefficiencyUrls w None)) \<le> 5
   \<and> length (results (process_batch w (take 5 (extractInefficiencyUrls w None))))
       + length (failures (process_batch w (take 5 (extractInefficiencyUrls w None)))) \<le> 5
   \<and> (5 < length (extractInefficiencyUrls w None)
        \<longrightarrow> length (results (process_batch w (take 5 (extractInefficiencyUrls w None))))
             + length (failures (process_batch w (take 5 (extractInefficiencyUrls w None))))
             = 5)"
proof (intro conjI impI)
  show "handler w \<lparr>urlParam = None, limitParam = None\<rparr>
     = (Batch (take 5 (extractInefficiencyUrls w None))
          (results (process_batch w (take 5 (extractInefficiencyUrls w None))))
          (failures (process_batch w (take 5 (extractInefficiencyUrls w None)))),
        warnings (process_batch w (take 5 (extractInefficiencyUrls w None))))"
    by (rule handler_default)
  show "extractInefficiencyUrls w (Some 5) = take 5 (extractInefficiencyUrls w None)"
    by (rule limit_five)
  show "sorted (extractInefficiencyUrls w None)"
    by (rule discovery_sorted_distinct)
  show "length (take 5 (extractInefficiencyUrls w None)) \<le> 5"
    by simp
  show "length (results (process_batch w (take 5 (extractInefficiencyUrls w None))))
       + length (failures (process_batch w (take 5 (extractInefficiencyUrls w None)))) \<le> 5"
    by (simp add: processed_count)
  show "length (results (process_batch w (take 5 (extractInefficiencyUrls w None))))
             + length (failures (process_batch w (take 5 (extractInefficiencyUrls w None))))
             = 5"
    if "5 < length (extractInefficiencyUrls w None)"
    using that by (simp add: processed_count)
qed

lemma two_page_discovered:
  "extractInefficiencyUrls two_page_hub None
       = [''https://hub.pointfive.co/hub/inefficiencies/a'',
          ''https://hub.pointfive.co/hub/inefficiencies/b'',
          ''https://hub.pointfive.co/hub/inefficiencies/c'',
          ''https://hub.pointfive.co/hub/inefficiencies/d'',
          ''https://hub.pointfive.co/hub/inefficiencies/e'',
          ''https://hub.pointfive.co/hub/inefficiencies/f'']"
proof -
  have "extractInefficiencyUrls two_page_hub None
           = sorted_list_of_set (\<Union>p\<in>{1..min 2 MAX_PAGES}. set (two_page_links p))"
    using two_page_hypotheses by (intro discovery_general) blast+
  then show ?thesis by (simp only: two_page_union)
qed

theorem default_limit_is_five_witness:
  "extractInefficiencyUrls two_page_hub None
       = [''https://hub.pointfive.co/hub/inefficiencies/a'',
          ''https://hub.pointfive.co/hub/inefficiencies/b'',
          ''https://hub.pointfive.co/hub/inefficiencies/c'',
          ''https://hub.pointfive.co/hub/inefficiencies/d'',
          ''https://hub.pointfive.co/hub/inefficiencies/e'',
          ''https://hub.pointfive.co/hub/inefficiencies/f'']
   \<and> 5 < length (extractInefficiencyUrls two_page_hub None)
   \<and> extractInefficiencyUrls two_page_hub (Some 5)
       = [''https://hub.pointfive.co/hub/inefficiencies/a'',
          ''https://hub.pointfive.co/hub/inefficiencies/b'',
          ''https://hub.pointfive.co/hub/inefficiencies/c'',
          ''https://hub.pointfive.co/hub/inefficiencies/d'',
          ''https://hub.pointfive.co/hub/inefficiencies/e'']
   \<and> length (results (process_batch two_page_hub
                 (take 5 (extractInefficiencyUrls two_page_hub None))))
       + length (failures (process_batch two_page_hub
                   (take 5 (extractInefficiencyUrls two_page_hub None)))) = 5"
proof -
  note t = default_limit_is_five [of two_page_hub]
  have l: "5 < length (extractInefficiencyUrls two_page_hub None)"
    by (simp add: two_page_discovered)
  from t have "extractInefficiencyUrls two_page_hub (Some 5)
                 = take 5 (extractInefficiencyUrls two_page_hub None)"
    by blast
  then have f: "extractInefficiencyUrls two_page_hub (Some 5)
       = [''https://hub.pointfive.co/hub/inefficiencies/a'',
          ''https://hub.pointfive.co/hub/inefficiencies/b'',
          ''https://hub.pointfive.co/hub/inefficiencies/c'',
          ''https://hub.pointfive.co/hub/inefficiencies/d'',
          ''https://hub.pointfive.co/hub/inefficiencies/e'']"
    by (simp add: two_page_discovered)
  from t l have "length (results (process_batch two_page_hub
                 (take 5 (extractInefficiencyUrls two_page_hub None))))
       + length (failures (process_batch two_page_hub
                   (take 5 (extractInefficiencyUrls two_page_hub None)))) = 5"
    by blast
  with l f two_page_discovered show ?thesis by blast
qed

end
